theory Spec2Isabelle
  imports Complex_Main
begin

section \<open>Data model of \<^verbatim>\<open>google/auth/transport/aiohttp_req.py\<close>\<close>

text \<open>
  The module is a thin layer over three external collaborators: the aiohttp client
  session (the transport), the credentials object, and the wall clock read by the
  time guard. None of them is part of the module, so each is a parameter of the
  model: a function on an opaque environment state \<open>'e\<close>, which returns either an
  exception or a value together with the next environment state.

  Python objects that the module shares by reference (header dictionaries, client
  sessions) live in an explicit store and are named by a reference. Exceptions are
  values of the type \<open>exc\<close>; a computation that can raise returns \<open>exc + 'a\<close>.
\<close>

type_synonym bytes = string
type_synonym header_dict = "(string \<times> string) list"
type_synonym kwargs = "(string \<times> string) list"
type_synonym ref = nat

text \<open>
  The exceptions the module names: \<^verbatim>\<open>aiohttp.ClientError\<close> (with its message),
  \<^verbatim>\<open>asyncio.TimeoutError\<close>, \<^verbatim>\<open>exceptions.TransportError(cause)\<close>, Python's
  \<^verbatim>\<open>AttributeError\<close> (attribute access on \<^verbatim>\<open>None\<close>), and any other exception a
  collaborator may raise.
\<close>

datatype exc =
    ClientError string
  | TimeoutError
  | TransportError exc
  | AttributeError string
  | OtherError string

text \<open>The raw aiohttp response: the three attributes the adapter reads.\<close>

record client_response =
  status :: int
  headers :: header_dict
  content :: bytes

text \<open>Class \<^verbatim>\<open>_Response\<close> (lines 45-66): it stores the raw response.\<close>

datatype Response = Response (response: client_response)

definition Response_status :: "Response \<Rightarrow> int" where
  "Response_status self = status (response self)"

definition Response_headers :: "Response \<Rightarrow> header_dict" where
  "Response_headers self = headers (response self)"

definition Response_data :: "Response \<Rightarrow> bytes" where
  "Response_data self = content (response self)"

text \<open>Class \<^verbatim>\<open>Request\<close> (lines 69-141): it stores the client session it sends on.\<close>

datatype Request = Request (session: ref)

text \<open>
  The value of \<^verbatim>\<open>self._auth_request\<close>: the \<^verbatim>\<open>Request\<close> the session built for
  itself, or whatever callable the caller passed to the constructor. The
  credentials receive it either as it is or wrapped by
  \<^verbatim>\<open>functools.partial(self._auth_request, timeout=timeout)\<close>.
\<close>

datatype auth_callable = Invoker Request | Callable string

datatype auth_invoker = Unbound auth_callable | Partial auth_callable real

text \<open>
  What a run does is recorded as a list of events, in order: every entry into
  \<^verbatim>\<open>AuthorizedSession.request\<close> (with the attempt counter, the \<^verbatim>\<open>headers\<close>
  argument and \<^verbatim>\<open>max_allowed_time\<close>), every time guard entered (with its
  budget) and every timeout a guard raises, every call of
  \<^verbatim>\<open>credentials.before_request\<close> (with the mapping it was given, by reference,
  and the mapping's contents before and after), every call of
  \<^verbatim>\<open>aiohttp.ClientSession.request\<close>, every call of \<^verbatim>\<open>credentials.refresh\<close>
  (with what it raised, if anything), and every client session closed.
\<close>

datatype event =
    EvCall int "ref option" "real option"
  | EvGuard "real option"
  | EvGuardTimeout
  | EvBeforeRequest auth_invoker string string ref header_dict header_dict
  | EvSend ref string string "bytes option" "header_dict option" "real option" kwargs
  | EvRefresh auth_invoker "exc option"
  | EvClose ref

record 'e world =
  env :: 'e
  heap :: "ref \<Rightarrow> header_dict"
  next_ref :: ref
  closed_sessions :: "ref set"
  trace :: "event list"

text \<open>
  The collaborators. \<open>clock\<close> is \<^verbatim>\<open>time.time()\<close>. \<open>before_request\<close> returns
  what the credentials raised (if anything) and the contents they left in the
  mapping they were handed. \<open>session_request\<close> is
  \<^verbatim>\<open>aiohttp.ClientSession.request\<close> on the session named by its first argument.
\<close>

record 'e collab =
  clock :: "'e \<Rightarrow> real"
  before_request ::
    "auth_invoker \<Rightarrow> string \<Rightarrow> string \<Rightarrow> header_dict \<Rightarrow> 'e \<Rightarrow> (exc option \<times> header_dict) \<times> 'e"
  refresh :: "auth_invoker \<Rightarrow> 'e \<Rightarrow> exc option \<times> 'e"
  session_request ::
    "ref \<Rightarrow> string \<Rightarrow> string \<Rightarrow> bytes option \<Rightarrow> header_dict option \<Rightarrow> real option \<Rightarrow> kwargs
      \<Rightarrow> 'e \<Rightarrow> (exc + client_response) \<times> 'e"

text \<open>
  Class \<^verbatim>\<open>AuthorizedSession\<close> (lines 144-172). \<open>this\<close> is the object itself as an
  \<^verbatim>\<open>aiohttp.ClientSession\<close> (its base class). The credentials are the
  \<open>before_request\<close> and \<open>refresh\<close> fields of the collaborators. The event loop and
  the refresh lock order concurrent calls; one logical call, run on its own, finds
  the lock free.
\<close>

record AuthorizedSession =
  this :: ref
  refresh_status_codes :: "int list"
  max_refresh_attempts :: int
  refresh_timeout :: "real option"
  is_mtls :: bool
  auth_request :: auth_callable
  auth_request_session :: "ref option"

definition DEFAULT_TIMEOUT :: real where
  "DEFAULT_TIMEOUT = 180"

text \<open>
  Modelled from the spec: \<^verbatim>\<open>transport.DEFAULT_REFRESH_STATUS_CODES\<close> and
  \<^verbatim>\<open>transport.DEFAULT_MAX_REFRESH_ATTEMPTS\<close> are defined in a module that is not
  among the sources. The spec gives them as the single status meaning
  "unauthorized" (HTTP 401) and 2.
\<close>

definition DEFAULT_REFRESH_STATUS_CODES :: "int list" where
  "DEFAULT_REFRESH_STATUS_CODES = [401]"

definition DEFAULT_MAX_REFRESH_ATTEMPTS :: int where
  "DEFAULT_MAX_REFRESH_ATTEMPTS = 2"

section \<open>Store and trace\<close>

definition emit :: "event \<Rightarrow> 'e world \<Rightarrow> 'e world" where
  "emit ev w = w\<lparr>trace := trace w @ [ev]\<rparr>"

definition new_ref :: "'e world \<Rightarrow> ref \<times> 'e world" where
  "new_ref w = (next_ref w, w\<lparr>next_ref := Suc (next_ref w)\<rparr>)"

text \<open>The events a run from \<open>w\<close> to \<open>w'\<close> added to the trace.\<close>

definition emitted :: "'e world \<Rightarrow> 'e world \<Rightarrow> event list" where
  "emitted w w' = drop (length (trace w)) (trace w')"

section \<open>The request invoker\<close>

text \<open>
  \<^verbatim>\<open>Request.__init__\<close> (lines 93-96): a new client session is created when none
  is given.
\<close>

definition Request_init :: "ref option \<Rightarrow> 'e world \<Rightarrow> Request \<times> 'e world" where
  "Request_init session_arg w =
     (case session_arg of
        None \<Rightarrow> (let (s, w') = new_ref w in (Request s, w'))
      | Some s \<Rightarrow> (Request s, w))"

text \<open>
  \<^verbatim>\<open>Request.__call__\<close> (lines 98-141): one call of the session's \<^verbatim>\<open>request\<close>;
  the two \<^verbatim>\<open>except\<close> clauses wrap an \<^verbatim>\<open>aiohttp.ClientError\<close> and an
  \<^verbatim>\<open>asyncio.TimeoutError\<close> into a \<^verbatim>\<open>TransportError\<close>; any other exception is
  not caught.
\<close>

definition Request_call ::
  "'e collab \<Rightarrow> Request \<Rightarrow> string \<Rightarrow> string \<Rightarrow> bytes option \<Rightarrow> header_dict option \<Rightarrow> real option
    \<Rightarrow> kwargs \<Rightarrow> 'e world \<Rightarrow> (exc + Response) \<times> 'e world" where
  "Request_call C self url method body hdrs timeout kw w =
     (let (r, e') = session_request C (session self) method url body hdrs timeout kw (env w);
          w' = emit (EvSend (session self) method url body hdrs timeout kw) (w\<lparr>env := e'\<rparr>)
      in case r of
           Inr resp \<Rightarrow> (Inr (Response resp), w')
         | Inl (ClientError msg) \<Rightarrow> (Inl (TransportError (ClientError msg)), w')
         | Inl TimeoutError \<Rightarrow> (Inl (TransportError TimeoutError), w')
         | Inl caught \<Rightarrow> (Inl caught, w'))"

section \<open>The time guard\<close>

text \<open>
  Modelled from the spec: class \<^verbatim>\<open>TimeoutGuard\<close> of
  \<^verbatim>\<open>google.auth.transport.requests\<close> is not among the sources. The spec's words
  (section 4.2, "Time-guard semantics"): the guard wraps a scoped operation with a
  remaining-budget value, possibly unlimited; on entry it records a start time; on
  normal exit it computes \<open>remaining = budget - elapsed\<close> and exposes it to the
  caller; an unlimited budget disables the check and is passed through. Two points
  follow the class as the program runs it and not the spec's wording. The deadline
  is hit when the remaining budget is not positive (\<^verbatim>\<open>remaining_timeout <= 0\<close>).
  And the check is made on a normal exit only: when the wrapped operation raised,
  \<^verbatim>\<open>__exit__\<close> returns at once (\<^verbatim>\<open>if exc_value: return\<close>) and the operation's own
  exception goes on to the caller, where the spec has the timeout supersede it.
\<close>

definition deadline_hit :: "real option \<Rightarrow> real \<Rightarrow> bool" where
  "deadline_hit budget elapsed = (case budget of None \<Rightarrow> False | Some b \<Rightarrow> b - elapsed \<le> 0)"

definition remaining_timeout :: "real option \<Rightarrow> real \<Rightarrow> real option" where
  "remaining_timeout budget elapsed =
     (case budget of None \<Rightarrow> None | Some b \<Rightarrow> Some (b - elapsed))"

text \<open>
  Modelled from the spec: the \<^verbatim>\<open>with TimeoutGuard(budget, error) as guard: body\<close>
  statement, with the semantics above. The result of a normal exit carries
  \<^verbatim>\<open>guard.remaining_timeout\<close>. The error type is an argument, as in the source,
  which passes \<^verbatim>\<open>asyncio.TimeoutError\<close>.
\<close>

definition with_TimeoutGuard ::
  "'e collab \<Rightarrow> real option \<Rightarrow> exc \<Rightarrow> ('e world \<Rightarrow> (exc + 'a) \<times> 'e world) \<Rightarrow> 'e world
    \<Rightarrow> (exc + 'a \<times> real option) \<times> 'e world" where
  "with_TimeoutGuard C budget timeout_error body w =
     (let start = clock C (env w);
          (r, w') = body (emit (EvGuard budget) w);
          elapsed = clock C (env w') - start
      in case r of
           Inl e \<Rightarrow> (Inl e, w')
         | Inr v \<Rightarrow>
             if deadline_hit budget elapsed then (Inl timeout_error, emit EvGuardTimeout w')
             else (Inr (v, remaining_timeout budget elapsed), w'))"

section \<open>The authorized session\<close>

text \<open>
  \<^verbatim>\<open>AuthorizedSession.__init__\<close> (lines 150-172). Without an \<^verbatim>\<open>auth_request\<close>
  the session creates a client session of its own and a \<^verbatim>\<open>Request\<close> on it; with
  one, \<^verbatim>\<open>_auth_request_session\<close> stays \<^verbatim>\<open>None\<close>.
\<close>

definition AuthorizedSession_init ::
  "int list \<Rightarrow> int \<Rightarrow> real option \<Rightarrow> auth_callable option \<Rightarrow> 'e world
    \<Rightarrow> AuthorizedSession \<times> 'e world" where
  "AuthorizedSession_init codes max_attempts refresh_tmo auth_request_arg w =
     (let (self_ref, w1) = new_ref w
      in case auth_request_arg of
           Some a \<Rightarrow>
             (\<lparr>this = self_ref, refresh_status_codes = codes,
               max_refresh_attempts = max_attempts, refresh_timeout = refresh_tmo,
               is_mtls = False, auth_request = a, auth_request_session = None\<rparr>, w1)
         | None \<Rightarrow>
             (let (s, w2) = new_ref w1;
                  (r, w3) = Request_init (Some s) w2
              in (\<lparr>this = self_ref, refresh_status_codes = codes,
                   max_refresh_attempts = max_attempts, refresh_timeout = refresh_tmo,
                   is_mtls = False, auth_request = Invoker r,
                   auth_request_session = Some s\<rparr>, w3)))"

text \<open>Line 231: \<^verbatim>\<open>request_headers = headers.copy() if headers is not None else {}\<close>.\<close>

definition copy_headers :: "ref option \<Rightarrow> 'e world \<Rightarrow> ref \<times> 'e world" where
  "copy_headers hdrs w =
     (let (r, w') = new_ref w
      in (r, w'\<lparr>heap := (heap w')(r := (case hdrs of Some h \<Rightarrow> heap w h | None \<Rightarrow> []))\<rparr>))"

text \<open>Lines 235-239 and 272-276: the invoker handed to the credentials.\<close>

definition derive_auth_request :: "AuthorizedSession \<Rightarrow> real option \<Rightarrow> auth_invoker" where
  "derive_auth_request self timeout =
     (case timeout of
        None \<Rightarrow> Unbound (auth_request self)
      | Some t \<Rightarrow> Partial (auth_request self) t)"

text \<open>
  Line 244: \<^verbatim>\<open>self.credentials.before_request(auth_request, method, url,
  request_headers)\<close>. The credentials mutate the mapping they are handed, and only
  that one.
\<close>

definition call_before_request ::
  "'e collab \<Rightarrow> auth_invoker \<Rightarrow> string \<Rightarrow> string \<Rightarrow> ref \<Rightarrow> 'e world \<Rightarrow> (exc + unit) \<times> 'e world" where
  "call_before_request C auth_req method url request_headers w =
     (let ((raised, hs'), e') =
            before_request C auth_req method url (heap w request_headers) (env w);
          w' = emit (EvBeforeRequest auth_req method url request_headers
                      (heap w request_headers) hs')
                 (w\<lparr>env := e', heap := (heap w)(request_headers := hs')\<rparr>)
      in (case raised of Some e \<Rightarrow> Inl e | None \<Rightarrow> Inr (), w'))"

text \<open>Lines 247-254: the send on the session itself, with the decorated headers.\<close>

definition call_send ::
  "'e collab \<Rightarrow> AuthorizedSession \<Rightarrow> string \<Rightarrow> string \<Rightarrow> bytes option \<Rightarrow> ref \<Rightarrow> real option \<Rightarrow> kwargs
    \<Rightarrow> 'e world \<Rightarrow> (exc + client_response) \<times> 'e world" where
  "call_send C self method url data request_headers timeout kw w =
     (let hs = heap w request_headers;
          (r, e') = session_request C (this self) method url data (Some hs) timeout kw (env w)
      in (r, emit (EvSend (this self) method url data (Some hs) timeout kw) (w\<lparr>env := e'\<rparr>)))"

text \<open>Lines 279-282: the refresh, under the refresh lock.\<close>

definition call_refresh :: "'e collab \<Rightarrow> auth_invoker \<Rightarrow> 'e world \<Rightarrow> (exc + unit) \<times> 'e world" where
  "call_refresh C auth_req w =
     (let (raised, e') = refresh C auth_req (env w)
      in (case raised of Some e \<Rightarrow> Inl e | None \<Rightarrow> Inr (),
          emit (EvRefresh auth_req raised) (w\<lparr>env := e'\<rparr>)))"

text \<open>
  Line 297: \<^verbatim>\<open>await self._auth_request_session.close()\<close>. The attribute is read
  whatever its value; on \<^verbatim>\<open>None\<close> the attribute access raises.
\<close>

definition close_auth_request_session ::
  "AuthorizedSession \<Rightarrow> 'e world \<Rightarrow> (exc + unit) \<times> 'e world" where
  "close_auth_request_session self w =
     (case auth_request_session self of
        None \<Rightarrow> (Inl (AttributeError ''close''), w)
      | Some s \<Rightarrow> (Inr (), emit (EvClose s) (w\<lparr>closed_sessions := insert s (closed_sessions w)\<rparr>)))"

text \<open>
  \<^verbatim>\<open>AuthorizedSession.request\<close> (lines 215-299). The keyword argument
  \<^verbatim>\<open>_credential_refresh_attempt\<close>, popped from \<^verbatim>\<open>kwargs\<close> with default 0, is the
  parameter \<open>attempt\<close>; \<open>kw\<close> holds the other keyword arguments. The variable
  \<^verbatim>\<open>remaining_time\<close> is assigned on lines 241, 256 and 284 and nowhere else: the
  guard of the \<^verbatim>\<open>before_request\<close> step is left without its
  \<^verbatim>\<open>remaining_timeout\<close> being read.
\<close>

function request ::
  "'e collab \<Rightarrow> AuthorizedSession \<Rightarrow> string \<Rightarrow> string \<Rightarrow> bytes option \<Rightarrow> ref option \<Rightarrow> real option
    \<Rightarrow> real option \<Rightarrow> kwargs \<Rightarrow> int \<Rightarrow> 'e world \<Rightarrow> (exc + client_response) \<times> 'e world" where
  "request C self method url data hdrs max_allowed_time timeout kw attempt w0 =
     (let (request_headers, w1) = copy_headers hdrs (emit (EvCall attempt hdrs max_allowed_time) w0);
          auth_req = derive_auth_request self timeout;
          remaining_time = max_allowed_time
      in case with_TimeoutGuard C remaining_time TimeoutError
                (call_before_request C auth_req method url request_headers) w1 of
           (Inl e, w2) \<Rightarrow> (Inl e, w2)
         | (Inr _, w2) \<Rightarrow>
        (case with_TimeoutGuard C remaining_time TimeoutError
                (call_send C self method url data request_headers timeout kw) w2 of
           (Inl e, w3) \<Rightarrow> (Inl e, w3)
         | (Inr (resp, remaining_time), w3) \<Rightarrow>
             if status resp \<in> set (refresh_status_codes self)
                \<and> attempt < max_refresh_attempts self
             then (let auth_req = derive_auth_request self timeout
                   in case with_TimeoutGuard C remaining_time TimeoutError
                             (call_refresh C auth_req) w3 of
                        (Inl e, w4) \<Rightarrow> (Inl e, w4)
                      | (Inr (_, remaining_time), w4) \<Rightarrow>
                          request C self method url data hdrs remaining_time timeout kw
                            (attempt + 1) w4)
             else (case close_auth_request_session self w3 of
                     (Inl e, w4) \<Rightarrow> (Inl e, w4)
                   | (Inr _, w4) \<Rightarrow> (Inr resp, w4))))"
  by pat_completeness auto
termination
  by (relation "measure (\<lambda>(C, self, method, url, data, hdrs, mat, timeout, kw, attempt, w).
        nat (max_refresh_attempts self - attempt))") auto

declare request.simps [simp del]

section \<open>Reading a trace\<close>

fun is_send :: "event \<Rightarrow> bool" where
  "is_send (EvSend s method url body hs timeout kw) = True"
| "is_send ev = False"

fun is_refresh :: "event \<Rightarrow> bool" where
  "is_refresh (EvRefresh a raised) = True"
| "is_refresh ev = False"

fun guard_budget :: "event \<Rightarrow> real option list" where
  "guard_budget (EvGuard b) = [b]"
| "guard_budget ev = []"

fun before_ref :: "event \<Rightarrow> ref list" where
  "before_ref (EvBeforeRequest a method url rh hs hs') = [rh]"
| "before_ref ev = []"

definition count_sends :: "event list \<Rightarrow> nat" where
  "count_sends evs = length (filter is_send evs)"

definition count_refreshes :: "event list \<Rightarrow> nat" where
  "count_refreshes evs = length (filter is_refresh evs)"

definition guard_budgets :: "event list \<Rightarrow> real option list" where
  "guard_budgets evs = concat (map guard_budget evs)"

fun sent :: "event \<Rightarrow> header_dict option list" where
  "sent (EvSend s method url body hs timeout kw) = [hs]"
| "sent ev = []"

text \<open>The headers of the sends, in order.\<close>

definition sent_headers :: "event list \<Rightarrow> header_dict option list" where
  "sent_headers evs = concat (map sent evs)"

text \<open>The mappings handed to \<^verbatim>\<open>before_request\<close>, by reference, in order.\<close>

definition decorated_refs :: "event list \<Rightarrow> ref list" where
  "decorated_refs evs = concat (map before_ref evs)"

section \<open>Properties of a trace\<close>

text \<open>
  \<open>headers_inv hdrs orig lo hi evs\<close>: every frame was entered with the \<^verbatim>\<open>headers\<close>
  argument \<open>hdrs\<close>; every mapping handed to \<^verbatim>\<open>before_request\<close> was allocated by the
  call (its reference lies in \<open>lo..<hi\<close>) and held \<open>orig\<close> at that moment; every send
  carried what some \<^verbatim>\<open>before_request\<close> of the call made of \<open>orig\<close>; and no mapping
  was handed to \<^verbatim>\<open>before_request\<close> twice.
\<close>

definition headers_inv ::
  "ref option \<Rightarrow> header_dict \<Rightarrow> ref \<Rightarrow> ref \<Rightarrow> event list \<Rightarrow> bool" where
  "headers_inv hdrs orig lo hi evs \<longleftrightarrow>
     (\<forall>a h m. EvCall a h m \<in> set evs \<longrightarrow> h = hdrs)
   \<and> (\<forall>a m u rh hin hout. EvBeforeRequest a m u rh hin hout \<in> set evs
         \<longrightarrow> lo \<le> rh \<and> rh < hi \<and> hin = orig)
   \<and> (\<forall>s m u d hs t k. EvSend s m u d hs t k \<in> set evs
         \<longrightarrow> (\<exists>a m' u' rh hout. EvBeforeRequest a m' u' rh orig hout \<in> set evs \<and> hs = Some hout))
   \<and> distinct (decorated_refs evs)"

text \<open>
  \<open>unlimited evs\<close>: no guard raised a timeout, every guard was entered with an
  unlimited budget, and every frame was entered with \<^verbatim>\<open>max_allowed_time\<close> unset.
\<close>

definition unlimited :: "event list \<Rightarrow> bool" where
  "unlimited evs \<longleftrightarrow>
     EvGuardTimeout \<notin> set evs \<and> (\<forall>b. EvGuard b \<in> set evs \<longrightarrow> b = None)
   \<and> (\<forall>a h m. EvCall a h m \<in> set evs \<longrightarrow> m = None)"

text \<open>
  \<open>refresh_failure_ends evs res\<close>: a refresh that raised is the last thing the call
  did, and the call failed with what the refresh raised.
\<close>

definition refresh_failure_ends :: "event list \<Rightarrow> exc + client_response \<Rightarrow> bool" where
  "refresh_failure_ends evs res \<longleftrightarrow>
     (\<forall>a x. EvRefresh a (Some x) \<in> set evs \<longrightarrow>
        (\<exists>pre. evs = pre @ [EvRefresh a (Some x)]) \<and> res = Inl x)"

text \<open>
  \<open>sends_decorated orig evs\<close>: wherever a send stands in the trace, the two events
  before it are a \<^verbatim>\<open>before_request\<close> for the same method and URL, handed the
  contents \<open>orig\<close>, and the entry of the send's guard; and the send carries the
  contents that this \<^verbatim>\<open>before_request\<close> left in its mapping.
\<close>

definition sends_decorated :: "header_dict \<Rightarrow> event list \<Rightarrow> bool" where
  "sends_decorated orig evs \<longleftrightarrow>
     (\<forall>pre s m u d hs t k post. evs = pre @ EvSend s m u d hs t k # post \<longrightarrow>
        (\<exists>pre' a rh hout b.
           pre = pre' @ [EvBeforeRequest a m u rh orig hout, EvGuard b] \<and> hs = Some hout))"

text \<open>
  \<open>replay C evs e\<close> runs the collaborators again along a trace, from the
  environment \<open>e\<close>: each recorded \<^verbatim>\<open>before_request\<close>, send and refresh is made on
  the environment the one before it left, with the arguments the event records.
  The replay fails where the collaborator answers otherwise than recorded: where
  \<^verbatim>\<open>before_request\<close> leaves other contents in the mapping, or the refresh raises
  something else. Otherwise it yields the last environment.
\<close>

fun replay :: "'e collab \<Rightarrow> event list \<Rightarrow> 'e \<Rightarrow> 'e option" where
  "replay C [] e = Some e"
| "replay C (EvBeforeRequest a m u rh hin hout # evs) e =
     (case before_request C a m u hin e of
        ((raised, hs'), e') \<Rightarrow> if hs' = hout then replay C evs e' else None)"
| "replay C (EvSend s m u d hs t k # evs) e =
     (case session_request C s m u d hs t k e of (r, e') \<Rightarrow> replay C evs e')"
| "replay C (EvRefresh a raised # evs) e =
     (case refresh C a e of (r, e') \<Rightarrow> if r = raised then replay C evs e' else None)"
| "replay C (ev # evs) e = replay C evs e"

section \<open>A scripted environment\<close>

text \<open>
  A concrete environment for running the model: the clock (a number), the answers
  the transport has yet to give, and the number of refreshes the credentials have
  been through. \<open>scripted tb ts tr refresh_raises\<close> is the collaborator whose
  \<open>before_request\<close> takes \<open>tb\<close> seconds and appends an authorization header with
  the current token, whose sends take \<open>ts\<close> seconds and give the next scripted
  answer (an exception, or the status of an empty response), and whose refresh takes
  \<open>tr\<close> seconds and either raises \<open>refresh_raises\<close>, if that is an exception, or
  moves on to the next token. The tokens are \<open>t0\<close>, \<open>t1\<close>, and \<open>t2\<close> from the second
  refresh on.
\<close>

type_synonym sim = "real \<times> (exc + int) list \<times> nat"

fun answer :: "(exc + int) list \<Rightarrow> exc + client_response" where
  "answer [] = Inl (OtherError ''no answer scripted'')"
| "answer (Inl x # rest) = Inl x"
| "answer (Inr st # rest) = Inr \<lparr>status = st, headers = [], content = []\<rparr>"

fun token :: "nat \<Rightarrow> string" where
  "token 0 = ''Bearer t0''"
| "token (Suc 0) = ''Bearer t1''"
| "token (Suc (Suc n)) = ''Bearer t2''"

definition scripted :: "real \<Rightarrow> real \<Rightarrow> real \<Rightarrow> exc option \<Rightarrow> sim collab" where
  "scripted tb ts tr refresh_raises =
     \<lparr>clock = fst,
      before_request = (\<lambda>a method url hs (t, pending, n).
         ((None, hs @ [(''authorization'', token n)]), (t + tb, pending, n))),
      refresh = (\<lambda>a (t, pending, n).
         (case refresh_raises of
            Some x \<Rightarrow> (Some x, (t + tr, pending, n))
          | None \<Rightarrow> (None, (t + tr, pending, Suc n)))),
      session_request = (\<lambda>s method url body hs timeout kw (t, pending, n).
         (answer pending, (t + ts, tl pending, n)))\<rparr>"

definition world0 :: "(exc + int) list \<Rightarrow> sim world" where
  "world0 answers = \<lparr>env = (0, answers, 0), heap = (\<lambda>r. []), next_ref = 0,
                      closed_sessions = {}, trace = []\<rparr>"

text \<open>
  A run of the scripted environment: a session is constructed with the given status
  codes, attempt bound and \<^verbatim>\<open>auth_request\<close> argument, the caller's header mapping (if
  any) is put into the store, and \<^verbatim>\<open>request\<close> is called on the session once, from
  outside (attempt counter 0), with that mapping, the given \<^verbatim>\<open>max_allowed_time\<close> and
  the default timeout. The run yields the session, the mapping's reference, the
  world the call started in, and the call's result and final world.
\<close>

type_synonym run_outcome =
  "AuthorizedSession \<times> ref option \<times> sim world \<times> (exc + client_response) \<times> sim world"

definition run ::
  "sim collab \<Rightarrow> (exc + int) list \<Rightarrow> int list \<Rightarrow> int \<Rightarrow> auth_callable option
    \<Rightarrow> header_dict option \<Rightarrow> real option \<Rightarrow> run_outcome" where
  "run C answers codes max_attempts auth_request_arg caller_headers max_allowed_time =
     (let (self, w) = AuthorizedSession_init codes max_attempts None auth_request_arg
                        (world0 answers);
          (hdrs, w) = (case caller_headers of
                         None \<Rightarrow> (None, w)
                       | Some hs \<Rightarrow> (let (r, w') = new_ref w
                                    in (Some r, w'\<lparr>heap := (heap w')(r := hs)\<rparr>)));
          (res, w') = request C self ''GET'' ''https://example.test/'' None hdrs
                        max_allowed_time (Some DEFAULT_TIMEOUT) [] 0 w
      in (self, hdrs, w, res, w'))"

text \<open>
  What is observed of a run: the result of the call, the events the call emitted,
  the sessions closed at its end, the clock at its end, the contents of the caller's
  header mapping at its end, and the session's \<^verbatim>\<open>_auth_request_session\<close>.
\<close>

datatype observation = Observation
  (obs_result: "exc + client_response")
  (obs_events: "event list")
  (obs_closed: "ref set")
  (obs_clock: real)
  (obs_headers: "header_dict option")
  (obs_auth_session: "ref option")

definition observe :: "run_outcome \<Rightarrow> observation" where
  "observe r =
     (case r of (self, hdrs, w, res, w') \<Rightarrow>
        Observation res (emitted w w') (closed_sessions w') (fst (env w'))
          (case hdrs of None \<Rightarrow> None | Some h \<Rightarrow> Some (heap w' h))
          (auth_request_session self))"

lemmas run_simps =
  observe_def run_def request.simps AuthorizedSession_init_def new_ref_def Request_init_def
  world0_def scripted_def copy_headers_def emit_def derive_auth_request_def
  with_TimeoutGuard_def call_before_request_def call_send_def call_refresh_def
  close_auth_request_session_def deadline_hit_def remaining_timeout_def DEFAULT_TIMEOUT_def
  emitted_def Let_def

section \<open>Basic facts\<close>

lemma emit_trace: "trace (emit ev w) = trace w @ [ev]"
  by (simp add: emit_def)

lemma emit_frame [simp]:
  "heap (emit ev w) = heap w" "next_ref (emit ev w) = next_ref w" "env (emit ev w) = env w"
  "closed_sessions (emit ev w) = closed_sessions w"
  by (simp_all add: emit_def)

text \<open>How a guarded block can end: the body's exception passes, the guard raises
  after a normal exit, or the body's value is returned with the remaining budget.\<close>

lemma with_TimeoutGuard_cases [consumes 1, case_names error timeout normal]:
  assumes "with_TimeoutGuard C b err body w = (r, w')"
  obtains
    (error) e where "body (emit (EvGuard b) w) = (Inl e, w')" and "r = Inl e"
  | (timeout) v wb where "body (emit (EvGuard b) w) = (Inr v, wb)"
      and "deadline_hit b (clock C (env wb) - clock C (env w))"
      and "r = Inl err" and "w' = emit EvGuardTimeout wb"
  | (normal) v where "body (emit (EvGuard b) w) = (Inr v, w')"
      and "\<not> deadline_hit b (clock C (env w') - clock C (env w))"
      and "r = Inr (v, remaining_timeout b (clock C (env w') - clock C (env w)))"
  using assms
  by (auto simp: with_TimeoutGuard_def Let_def split: prod.splits if_splits sum.splits)

text \<open>The six ways one frame of \<^verbatim>\<open>request\<close> can end, one per exit of the source.\<close>

lemma request_cases [consumes 1,
    case_names before_failed send_failed refresh_failed retry close_failed returned]:
  assumes "request C self method url data hdrs mat timeout kw attempt w0 = (res, w')"
  obtains
    (before_failed) rh w1 e where
      "copy_headers hdrs (emit (EvCall attempt hdrs mat) w0) = (rh, w1)"
      "with_TimeoutGuard C mat TimeoutError
         (call_before_request C (derive_auth_request self timeout) method url rh) w1 = (Inl e, w')"
      "res = Inl e"
  | (send_failed) rh w1 x w2 e where
      "copy_headers hdrs (emit (EvCall attempt hdrs mat) w0) = (rh, w1)"
      "with_TimeoutGuard C mat TimeoutError
         (call_before_request C (derive_auth_request self timeout) method url rh) w1 = (Inr x, w2)"
      "with_TimeoutGuard C mat TimeoutError
         (call_send C self method url data rh timeout kw) w2 = (Inl e, w')"
      "res = Inl e"
  | (refresh_failed) rh w1 x w2 resp rem w3 e where
      "copy_headers hdrs (emit (EvCall attempt hdrs mat) w0) = (rh, w1)"
      "with_TimeoutGuard C mat TimeoutError
         (call_before_request C (derive_auth_request self timeout) method url rh) w1 = (Inr x, w2)"
      "with_TimeoutGuard C mat TimeoutError
         (call_send C self method url data rh timeout kw) w2 = (Inr (resp, rem), w3)"
      "status resp \<in> set (refresh_status_codes self)" "attempt < max_refresh_attempts self"
      "with_TimeoutGuard C rem TimeoutError
         (call_refresh C (derive_auth_request self timeout)) w3 = (Inl e, w')"
      "res = Inl e"
  | (retry) rh w1 x w2 resp rem w3 y rem' w4 where
      "copy_headers hdrs (emit (EvCall attempt hdrs mat) w0) = (rh, w1)"
      "with_TimeoutGuard C mat TimeoutError
         (call_before_request C (derive_auth_request self timeout) method url rh) w1 = (Inr x, w2)"
      "with_TimeoutGuard C mat TimeoutError
         (call_send C self method url data rh timeout kw) w2 = (Inr (resp, rem), w3)"
      "status resp \<in> set (refresh_status_codes self)" "attempt < max_refresh_attempts self"
      "with_TimeoutGuard C rem TimeoutError
         (call_refresh C (derive_auth_request self timeout)) w3 = (Inr (y, rem'), w4)"
      "request C self method url data hdrs rem' timeout kw (attempt + 1) w4 = (res, w')"
  | (close_failed) rh w1 x w2 resp rem w3 e where
      "copy_headers hdrs (emit (EvCall attempt hdrs mat) w0) = (rh, w1)"
      "with_TimeoutGuard C mat TimeoutError
         (call_before_request C (derive_auth_request self timeout) method url rh) w1 = (Inr x, w2)"
      "with_TimeoutGuard C mat TimeoutError
         (call_send C self method url data rh timeout kw) w2 = (Inr (resp, rem), w3)"
      "\<not> (status resp \<in> set (refresh_status_codes self) \<and> attempt < max_refresh_attempts self)"
      "close_auth_request_session self w3 = (Inl e, w')"
      "res = Inl e"
  | (returned) rh w1 x w2 resp rem w3 u where
      "copy_headers hdrs (emit (EvCall attempt hdrs mat) w0) = (rh, w1)"
      "with_TimeoutGuard C mat TimeoutError
         (call_before_request C (derive_auth_request self timeout) method url rh) w1 = (Inr x, w2)"
      "with_TimeoutGuard C mat TimeoutError
         (call_send C self method url data rh timeout kw) w2 = (Inr (resp, rem), w3)"
      "\<not> (status resp \<in> set (refresh_status_codes self) \<and> attempt < max_refresh_attempts self)"
      "close_auth_request_session self w3 = (Inr u, w')"
      "res = Inr resp"
proof -
  note unfold = request.simps [of C self "method" "url" "data" hdrs mat timeout kw attempt w0]
  obtain rh w1 where c: "copy_headers hdrs (emit (EvCall attempt hdrs mat) w0) = (rh, w1)"
    by (cases "copy_headers hdrs (emit (EvCall attempt hdrs mat) w0)")
  obtain r2 w2 where b: "with_TimeoutGuard C mat TimeoutError
         (call_before_request C (derive_auth_request self timeout) method url rh) w1 = (r2, w2)"
    by (cases "with_TimeoutGuard C mat TimeoutError
         (call_before_request C (derive_auth_request self timeout) method url rh) w1")
  obtain r3 w3 where s: "with_TimeoutGuard C mat TimeoutError
         (call_send C self method url data rh timeout kw) w2 = (r3, w3)"
    by (cases "with_TimeoutGuard C mat TimeoutError
         (call_send C self method url data rh timeout kw) w2")
  show thesis
  proof (cases r2)
    case (Inl e)
    with assms c b show thesis
      by (intro before_failed [of rh w1 e]) (simp_all add: unfold)
  next
    case r2: (Inr x)
    show thesis
    proof (cases r3)
      case (Inl e)
      with assms c b s r2 show thesis
        by (intro send_failed [of rh w1 x w2 e]) (simp_all add: unfold)
    next
      case (Inr p)
      obtain resp rem where p: "p = (resp, rem)" by (cases p)
      show thesis
      proof (cases "status resp \<in> set (refresh_status_codes self)
                      \<and> attempt < max_refresh_attempts self")
        case True
        obtain r4 w4 where f: "with_TimeoutGuard C rem TimeoutError
            (call_refresh C (derive_auth_request self timeout)) w3 = (r4, w4)"
          by (cases "with_TimeoutGuard C rem TimeoutError
            (call_refresh C (derive_auth_request self timeout)) w3")
        show thesis
        proof (cases r4)
          case (Inl e)
          with assms c b s r2 Inr p True f show thesis
            by (intro refresh_failed [of rh w1 x w2 resp rem w3 e]) (simp_all add: unfold)
        next
          case r4: (Inr q)
          obtain y rem' where q: "q = (y, rem')" by (cases q)
          with assms c b s r2 Inr p True f r4 show thesis
            by (intro retry [of rh w1 x w2 resp rem w3 y rem' w4]) (simp_all add: unfold)
        qed
      next
        case False
        obtain r4 w4 where f: "close_auth_request_session self w3 = (r4, w4)"
          by (cases "close_auth_request_session self w3")
        show thesis
        proof (cases r4)
          case (Inl e)
          with assms c b s r2 Inr p False f show thesis
            by (intro close_failed [of rh w1 x w2 resp rem w3 e]) (simp_all add: unfold)
        next
          case r4: (Inr u)
          with assms c b s r2 Inr p False f show thesis
            by (intro returned [of rh w1 x w2 resp rem w3 u]) (simp_all add: unfold)
        qed
      qed
    qed
  qed
qed

text \<open>What each step of a frame does to the store and the trace.\<close>

lemma copy_headers_eq:
  assumes "copy_headers hdrs (emit ev w) = (rh, w1)"
  shows "rh = next_ref w" "next_ref w1 = Suc (next_ref w)" "trace w1 = trace w @ [ev]"
    "heap w1 = (heap w)(rh := (case hdrs of Some h \<Rightarrow> heap w h | None \<Rightarrow> []))"
    "env w1 = env w"
  using assms
  by (auto simp: copy_headers_def new_ref_def emit_trace Let_def split: option.splits)

lemma guarded_before_request:
  assumes "with_TimeoutGuard C b err (call_before_request C a m u rh) w = (r, w')"
  obtains raised hout tail where
    "trace w' = trace w @ EvGuard b # EvBeforeRequest a m u rh (heap w rh) hout # tail"
    "tail = [] \<or> tail = [EvGuardTimeout] \<and> b \<noteq> None \<and> r = Inl err"
    "heap w' = (heap w)(rh := hout)" "next_ref w' = next_ref w"
    "before_request C a m u (heap w rh) (env w) = ((raised, hout), env w')"
  using assms
  by (cases rule: with_TimeoutGuard_cases)
     (auto simp: call_before_request_def emit_def Let_def deadline_hit_def
           split: prod.splits option.splits)

lemma guarded_send:
  assumes "with_TimeoutGuard C b err (call_send C self m u d rh t k) w = (r, w')"
  obtains answered tail where
    "trace w' = trace w @ EvGuard b # EvSend (this self) m u d (Some (heap w rh)) t k # tail"
    "tail = [] \<or> tail = [EvGuardTimeout] \<and> b \<noteq> None \<and> r = Inl err"
    "heap w' = heap w" "next_ref w' = next_ref w"
    "\<And>resp rem. r = Inr (resp, rem) \<Longrightarrow> tail = [] \<and> (b = None \<longrightarrow> rem = None)"
    "session_request C (this self) m u d (Some (heap w rh)) t k (env w) = (answered, env w')"
  using assms
  by (cases rule: with_TimeoutGuard_cases)
     (auto simp: call_send_def emit_def Let_def deadline_hit_def remaining_timeout_def
           split: prod.splits option.splits)

lemma guarded_refresh:
  assumes "with_TimeoutGuard C b err (call_refresh C a) w = (r, w')"
  obtains raised tail where
    "trace w' = trace w @ EvGuard b # EvRefresh a raised # tail"
    "heap w' = heap w" "next_ref w' = next_ref w"
    "case raised of
       Some x \<Rightarrow> tail = [] \<and> r = Inl x
     | None \<Rightarrow> tail = [] \<and> (\<exists>rem. r = Inr ((), rem) \<and> (b = None \<longrightarrow> rem = None))
              \<or> tail = [EvGuardTimeout] \<and> b \<noteq> None \<and> r = Inl err"
    "refresh C a (env w) = (raised, env w')"
proof -
  obtain raised e' where rf: "refresh C a (env w) = (raised, e')"
    by (cases "refresh C a (env w)")
  let ?wb = "emit (EvRefresh a raised) ((emit (EvGuard b) w)\<lparr>env := e'\<rparr>)"
  have body: "call_refresh C a (emit (EvGuard b) w)
      = (case raised of Some e \<Rightarrow> Inl e | None \<Rightarrow> Inr (), ?wb)"
    by (simp add: call_refresh_def rf)
  have wb: "trace ?wb = trace w @ [EvGuard b, EvRefresh a raised]" "heap ?wb = heap w"
    "next_ref ?wb = next_ref w" "env ?wb = e'"
    by (simp_all add: emit_def)
  from assms show thesis
  proof (cases rule: with_TimeoutGuard_cases)
    case (error e)
    with body have "raised = Some e" "w' = ?wb" by (auto split: option.splits)
    with wb rf error(2) show thesis
      by (intro that [of raised "[]"]) simp_all
  next
    case (timeout v wb')
    with body have eq: "raised = None" "wb' = ?wb" by (auto split: option.splits)
    from timeout(2) have "b \<noteq> None" by (auto simp: deadline_hit_def split: option.splits)
    with eq wb rf timeout(3,4) show thesis
      by (intro that [of raised "[EvGuardTimeout]"]) (simp_all add: emit_trace)
  next
    case (normal v)
    with body have eq: "raised = None" "w' = ?wb" by (auto split: option.splits)
    have "b = None \<longrightarrow> remaining_timeout b (clock C (env w') - clock C (env w)) = None"
      by (simp add: remaining_timeout_def)
    with eq wb rf normal(3) show thesis
      by (intro that [of raised "[]"]) simp_all
  qed
qed

lemma close_auth_request_session_eq:
  assumes "close_auth_request_session self w = (r, w')"
  shows "heap w' = heap w" "next_ref w' = next_ref w"
    "(auth_request_session self = None \<and> r = Inl (AttributeError ''close'') \<and> w' = w)
     \<or> (\<exists>s. auth_request_session self = Some s \<and> r = Inr () \<and> trace w' = trace w @ [EvClose s])"
    "env w' = env w"
  using assms
  by (auto simp: close_auth_request_session_def emit_def split: option.splits)

lemma emitted_append: "trace w' = trace w @ evs \<Longrightarrow> emitted w w' = evs"
  by (simp add: emitted_def)

section \<open>Invariants of a call, by induction on the attempts left\<close>

lemma in_before_ref:
  "r \<in> set (before_ref ev) \<longleftrightarrow> (\<exists>a m u hin hout. ev = EvBeforeRequest a m u r hin hout)"
  by (cases ev) auto

lemma in_decorated_refs:
  "r \<in> set (decorated_refs evs) \<longleftrightarrow> (\<exists>a m u hin hout. EvBeforeRequest a m u r hin hout \<in> set evs)"
  by (simp add: decorated_refs_def in_before_ref) blast

lemma decorated_refs_append: "decorated_refs (xs @ ys) = decorated_refs xs @ decorated_refs ys"
  by (simp add: decorated_refs_def)

lemma headers_inv_Nil: "headers_inv hdrs orig lo hi []"
  by (simp add: headers_inv_def decorated_refs_def)

lemma headers_inv_frame:
  assumes fr: "set fr \<subseteq> {EvCall attempt hdrs mat, EvGuard ba, EvGuard bb, EvGuard bc,
      EvBeforeRequest a m u lo orig hout, EvSend s m' u' d (Some hout) t k, EvRefresh a' raised,
      EvGuardTimeout, EvClose c}"
    and bf: "EvBeforeRequest a m u lo orig hout \<in> set fr"
    and refs: "decorated_refs fr = [lo]"
    and lt: "lo < hi"
    and inv: "headers_inv hdrs orig (Suc lo) hi evs"
  shows "headers_inv hdrs orig lo hi (fr @ evs)"
proof -
  have fresh: "lo \<notin> set (decorated_refs evs)"
    using inv unfolding headers_inv_def in_decorated_refs by fastforce
  have 1: "\<forall>a h m. EvCall a h m \<in> set (fr @ evs) \<longrightarrow> h = hdrs"
    using fr inv unfolding headers_inv_def by (auto simp: subset_iff)
  have 2: "\<forall>a m u rh hin hout. EvBeforeRequest a m u rh hin hout \<in> set (fr @ evs)
         \<longrightarrow> lo \<le> rh \<and> rh < hi \<and> hin = orig"
    using fr inv lt unfolding headers_inv_def by (fastforce simp: subset_iff)
  have 3: "\<forall>s m u d hs t k. EvSend s m u d hs t k \<in> set (fr @ evs)
         \<longrightarrow> (\<exists>a m' u' rh hout. EvBeforeRequest a m' u' rh orig hout \<in> set (fr @ evs) \<and> hs = Some hout)"
  proof (intro allI impI)
    fix s1 m1 u1 d1 hs1 t1 k1
    assume "EvSend s1 m1 u1 d1 hs1 t1 k1 \<in> set (fr @ evs)"
    then consider "EvSend s1 m1 u1 d1 hs1 t1 k1 \<in> set fr" | "EvSend s1 m1 u1 d1 hs1 t1 k1 \<in> set evs"
      by auto
    then show "\<exists>a m' u' rh hout. EvBeforeRequest a m' u' rh orig hout \<in> set (fr @ evs) \<and> hs1 = Some hout"
    proof cases
      case 1
      with fr have "hs1 = Some hout" by (auto simp: subset_iff)
      with bf show ?thesis by auto
    next
      case 2
      with inv obtain a2 m2 u2 rh2 hout2 where
        "EvBeforeRequest a2 m2 u2 rh2 orig hout2 \<in> set evs" "hs1 = Some hout2"
        unfolding headers_inv_def by blast
      then show ?thesis by auto
    qed
  qed
  have 4: "distinct (decorated_refs (fr @ evs))"
    using inv fresh refs unfolding headers_inv_def by (simp add: decorated_refs_append)
  from 1 2 3 4 show ?thesis unfolding headers_inv_def by blast
qed

lemma request_headers_aux:
  assumes "request C self method url data hdrs mat timeout kw attempt w = (res, w')"
    and "case hdrs of Some r \<Rightarrow> r < next_ref w | None \<Rightarrow> True"
  shows "\<exists>evs. trace w' = trace w @ evs \<and> next_ref w < next_ref w'
     \<and> (\<forall>r < next_ref w. heap w' r = heap w r)
     \<and> headers_inv hdrs (case hdrs of Some r \<Rightarrow> heap w r | None \<Rightarrow> []) (next_ref w) (next_ref w') evs
     \<and> (\<exists>a hout rest. evs = EvCall attempt hdrs mat # EvGuard mat
           # EvBeforeRequest a method url (next_ref w)
               (case hdrs of Some r \<Rightarrow> heap w r | None \<Rightarrow> []) hout # rest)"
  using assms
proof (induction "nat (max_refresh_attempts self - attempt)" arbitrary: attempt w mat rule: less_induct)
  case less
  let ?orig = "case hdrs of Some r \<Rightarrow> heap w r | None \<Rightarrow> []"
  let ?a = "derive_auth_request self timeout"
  from less.prems(1) show ?case
  proof (cases rule: request_cases)
    case (before_failed rh w1 e)
    note c = copy_headers_eq [OF before_failed(1)]
    from before_failed(2) obtain hout tail where
      b: "trace w' = trace w1 @ EvGuard mat # EvBeforeRequest ?a method url rh (heap w1 rh) hout # tail"
        "tail = [] \<or> tail = [EvGuardTimeout] \<and> mat \<noteq> None \<and> Inl e = Inl TimeoutError"
        "heap w' = (heap w1)(rh := hout)" "next_ref w' = next_ref w1"
      by (rule guarded_before_request) blast
    let ?fr = "EvCall attempt hdrs mat # EvGuard mat # EvBeforeRequest ?a method url rh ?orig hout # tail"
    have tr: "trace w' = trace w @ ?fr" using c b by simp
    have inv: "headers_inv hdrs ?orig (next_ref w) (next_ref w') (?fr @ [])"
      by (rule headers_inv_frame [where hout = hout and ba = mat and bb = mat and bc = mat])
         (use c b in \<open>auto simp: decorated_refs_def headers_inv_Nil\<close>)
    from tr inv c b show ?thesis by auto
  next
    case (send_failed rh w1 x w2 e)
    note c = copy_headers_eq [OF send_failed(1)]
    from send_failed(2) obtain hout where
      b: "trace w2 = trace w1 @ [EvGuard mat, EvBeforeRequest ?a method url rh (heap w1 rh) hout]"
        "heap w2 = (heap w1)(rh := hout)" "next_ref w2 = next_ref w1"
      by (rule guarded_before_request) auto
    from send_failed(3) obtain tail where
      s: "trace w' = trace w2 @ EvGuard mat # EvSend (this self) method url data (Some (heap w2 rh)) timeout kw # tail"
        "tail = [] \<or> tail = [EvGuardTimeout] \<and> mat \<noteq> None \<and> Inl e = Inl TimeoutError"
        "heap w' = heap w2" "next_ref w' = next_ref w2"
      by (rule guarded_send) blast
    let ?fr = "EvCall attempt hdrs mat # EvGuard mat # EvBeforeRequest ?a method url rh ?orig hout
      # EvGuard mat # EvSend (this self) method url data (Some hout) timeout kw # tail"
    have tr: "trace w' = trace w @ ?fr" using c b s by simp
    have inv: "headers_inv hdrs ?orig (next_ref w) (next_ref w') (?fr @ [])"
      by (rule headers_inv_frame [where hout = hout and ba = mat and bb = mat and bc = mat])
         (use c b s in \<open>auto simp: decorated_refs_def headers_inv_Nil\<close>)
    from tr inv c b s show ?thesis by auto
  next
    case (refresh_failed rh w1 x w2 resp rem w3 e)
    note c = copy_headers_eq [OF refresh_failed(1)]
    from refresh_failed(2) obtain hout where
      b: "trace w2 = trace w1 @ [EvGuard mat, EvBeforeRequest ?a method url rh (heap w1 rh) hout]"
        "heap w2 = (heap w1)(rh := hout)" "next_ref w2 = next_ref w1"
      by (rule guarded_before_request) auto
    from refresh_failed(3) have
      s: "trace w3 = trace w2 @ [EvGuard mat, EvSend (this self) method url data (Some (heap w2 rh)) timeout kw]"
        "heap w3 = heap w2" "next_ref w3 = next_ref w2"
      by (rule guarded_send; auto)+
    from refresh_failed(6) obtain raised tail where
      f: "trace w' = trace w3 @ EvGuard rem # EvRefresh ?a raised # tail"
        "heap w' = heap w3" "next_ref w' = next_ref w3"
        "tail = [] \<or> tail = [EvGuardTimeout]"
      by (rule guarded_refresh) (auto split: option.splits)
    let ?fr = "EvCall attempt hdrs mat # EvGuard mat # EvBeforeRequest ?a method url rh ?orig hout
      # EvGuard mat # EvSend (this self) method url data (Some hout) timeout kw
      # EvGuard rem # EvRefresh ?a raised # tail"
    have tr: "trace w' = trace w @ ?fr" using c b s f by simp
    have inv: "headers_inv hdrs ?orig (next_ref w) (next_ref w') (?fr @ [])"
      by (rule headers_inv_frame [where hout = hout and ba = mat and bb = mat and bc = rem])
         (use c b s f in \<open>auto simp: decorated_refs_def headers_inv_Nil\<close>)
    from tr inv c b s f show ?thesis by auto
  next
    case (retry rh w1 x w2 resp rem w3 y rem' w4)
    note c = copy_headers_eq [OF retry(1)]
    from retry(2) obtain hout where
      b: "trace w2 = trace w1 @ [EvGuard mat, EvBeforeRequest ?a method url rh (heap w1 rh) hout]"
        "heap w2 = (heap w1)(rh := hout)" "next_ref w2 = next_ref w1"
      by (rule guarded_before_request) auto
    from retry(3) have
      s: "trace w3 = trace w2 @ [EvGuard mat, EvSend (this self) method url data (Some (heap w2 rh)) timeout kw]"
        "heap w3 = heap w2" "next_ref w3 = next_ref w2"
      by (rule guarded_send; auto)+
    from retry(6) obtain raised where
      f: "trace w4 = trace w3 @ [EvGuard rem, EvRefresh ?a raised]"
        "heap w4 = heap w3" "next_ref w4 = next_ref w3"
      by (rule guarded_refresh) (auto split: option.splits)
    have lt: "nat (max_refresh_attempts self - (attempt + 1)) < nat (max_refresh_attempts self - attempt)"
      using retry(5) by simp
    have pre: "case hdrs of Some r \<Rightarrow> r < next_ref w4 | None \<Rightarrow> True"
      using less.prems(2) c b s f by (auto split: option.splits)
    have orig: "(case hdrs of Some r \<Rightarrow> heap w4 r | None \<Rightarrow> []) = ?orig"
      using less.prems(2) c b s f by (auto split: option.splits)
    from less.hyps [OF lt retry(7) pre] orig obtain evs where
      ih: "trace w' = trace w4 @ evs" "next_ref w4 < next_ref w'"
        "\<forall>r < next_ref w4. heap w' r = heap w4 r"
        "headers_inv hdrs ?orig (next_ref w4) (next_ref w') evs"
      by auto
    let ?fr = "[EvCall attempt hdrs mat, EvGuard mat, EvBeforeRequest ?a method url rh ?orig hout,
      EvGuard mat, EvSend (this self) method url data (Some hout) timeout kw,
      EvGuard rem, EvRefresh ?a raised]"
    have tr: "trace w' = trace w @ ?fr @ evs" using c b s f ih by simp
    have inv: "headers_inv hdrs ?orig (next_ref w) (next_ref w') (?fr @ evs)"
      by (rule headers_inv_frame [where hout = hout and ba = mat and bb = mat and bc = rem])
         (use c b s f ih in \<open>auto simp: decorated_refs_def\<close>)
    from tr inv c b s f ih show ?thesis by auto
  next
    case (close_failed rh w1 x w2 resp rem w3 e)
    note c = copy_headers_eq [OF close_failed(1)]
    from close_failed(2) obtain hout where
      b: "trace w2 = trace w1 @ [EvGuard mat, EvBeforeRequest ?a method url rh (heap w1 rh) hout]"
        "heap w2 = (heap w1)(rh := hout)" "next_ref w2 = next_ref w1"
      by (rule guarded_before_request) auto
    from close_failed(3) have
      s: "trace w3 = trace w2 @ [EvGuard mat, EvSend (this self) method url data (Some (heap w2 rh)) timeout kw]"
        "heap w3 = heap w2" "next_ref w3 = next_ref w2"
      by (rule guarded_send; auto)+
    from close_auth_request_session_eq [OF close_failed(5)] have f: "w' = w3" by auto
    let ?fr = "[EvCall attempt hdrs mat, EvGuard mat, EvBeforeRequest ?a method url rh ?orig hout,
      EvGuard mat, EvSend (this self) method url data (Some hout) timeout kw]"
    have tr: "trace w' = trace w @ ?fr" using c b s f by simp
    have inv: "headers_inv hdrs ?orig (next_ref w) (next_ref w') (?fr @ [])"
      by (rule headers_inv_frame [where hout = hout and ba = mat and bb = mat and bc = mat])
         (use c b s f in \<open>auto simp: decorated_refs_def headers_inv_Nil\<close>)
    from tr inv c b s f show ?thesis by auto
  next
    case (returned rh w1 x w2 resp rem w3 u)
    note c = copy_headers_eq [OF returned(1)]
    from returned(2) obtain hout where
      b: "trace w2 = trace w1 @ [EvGuard mat, EvBeforeRequest ?a method url rh (heap w1 rh) hout]"
        "heap w2 = (heap w1)(rh := hout)" "next_ref w2 = next_ref w1"
      by (rule guarded_before_request) auto
    from returned(3) have
      s: "trace w3 = trace w2 @ [EvGuard mat, EvSend (this self) method url data (Some (heap w2 rh)) timeout kw]"
        "heap w3 = heap w2" "next_ref w3 = next_ref w2"
      by (rule guarded_send; auto)+
    from close_auth_request_session_eq [OF returned(5)] obtain cs where
      f: "trace w' = trace w3 @ [EvClose cs]" "heap w' = heap w3" "next_ref w' = next_ref w3"
      by auto
    let ?fr = "[EvCall attempt hdrs mat, EvGuard mat, EvBeforeRequest ?a method url rh ?orig hout,
      EvGuard mat, EvSend (this self) method url data (Some hout) timeout kw, EvClose cs]"
    have tr: "trace w' = trace w @ ?fr" using c b s f by simp
    have inv: "headers_inv hdrs ?orig (next_ref w) (next_ref w') (?fr @ [])"
      by (rule headers_inv_frame [where hout = hout and ba = mat and bb = mat and bc = mat])
         (use c b s f in \<open>auto simp: decorated_refs_def headers_inv_Nil\<close>)
    from tr inv c b s f show ?thesis by auto
  qed
qed


lemma request_unlimited_aux:
  assumes "request C self method url data hdrs None timeout kw attempt w = (res, w')"
  shows "\<exists>evs. trace w' = trace w @ evs \<and> unlimited evs"
  using assms
proof (induction "nat (max_refresh_attempts self - attempt)" arbitrary: attempt w rule: less_induct)
  case less
  from less.prems show ?case
  proof (cases rule: request_cases)
    case (before_failed rh w1 e)
    from copy_headers_eq(3) [OF before_failed(1)] before_failed(2) show ?thesis
      by (elim guarded_before_request) (auto simp: unlimited_def)
  next
    case (send_failed rh w1 x w2 e)
    from copy_headers_eq(3) [OF send_failed(1)] send_failed(2,3) show ?thesis
      by (elim guarded_before_request guarded_send) (auto simp: unlimited_def)
  next
    case (refresh_failed rh w1 x w2 resp rem w3 e)
    from copy_headers_eq(3) [OF refresh_failed(1)] refresh_failed(2,3,6) show ?thesis
      by (elim guarded_before_request guarded_send guarded_refresh)
         (auto simp: unlimited_def split: option.splits)
  next
    case (retry rh w1 x w2 resp rem w3 y rem' w4)
    have rem: "rem = None"
      using retry(3) by (elim guarded_send) auto
    have rem': "rem' = None"
      using retry(6) rem by (elim guarded_refresh) (auto split: option.splits)
    have "nat (max_refresh_attempts self - (attempt + 1)) < nat (max_refresh_attempts self - attempt)"
      using retry(5) by simp
    from less.hyps [OF this] retry(7) rem'
    obtain evs where evs: "trace w' = trace w4 @ evs" "unlimited evs" by blast
    from copy_headers_eq(3) [OF retry(1)] retry(2,3,6) rem evs show ?thesis
      by (elim guarded_before_request guarded_send guarded_refresh)
         (auto simp: unlimited_def split: option.splits)
  next
    case (close_failed rh w1 x w2 resp rem w3 e)
    from copy_headers_eq(3) [OF close_failed(1)] close_failed(2,3)
      close_auth_request_session_eq(3) [OF close_failed(5)] show ?thesis
      by (elim guarded_before_request guarded_send) (auto simp: unlimited_def)
  next
    case (returned rh w1 x w2 resp rem w3 u)
    from copy_headers_eq(3) [OF returned(1)] returned(2,3)
      close_auth_request_session_eq(3) [OF returned(5)] show ?thesis
      by (elim guarded_before_request guarded_send) (auto simp: unlimited_def)
  qed
qed

lemma refresh_failure_ends_no_refresh:
  assumes "\<And>a x. EvRefresh a (Some x) \<notin> set evs"
  shows "refresh_failure_ends evs res"
  using assms by (simp add: refresh_failure_ends_def)

lemma refresh_failure_ends_prepend:
  assumes "refresh_failure_ends evs res" and "\<And>a x. EvRefresh a (Some x) \<notin> set fr"
  shows "refresh_failure_ends (fr @ evs) res"
  unfolding refresh_failure_ends_def
proof (intro allI impI)
  fix a x
  assume "EvRefresh a (Some x) \<in> set (fr @ evs)"
  with assms(2) have "EvRefresh a (Some x) \<in> set evs" by auto
  with assms(1) obtain pre where "evs = pre @ [EvRefresh a (Some x)]" "res = Inl x"
    unfolding refresh_failure_ends_def by blast
  then have "fr @ evs = (fr @ pre) @ [EvRefresh a (Some x)]" "res = Inl x" by simp_all
  then show "(\<exists>pre. fr @ evs = pre @ [EvRefresh a (Some x)]) \<and> res = Inl x" by blast
qed

lemma request_refresh_failure_aux:
  assumes "request C self method url data hdrs mat timeout kw attempt w = (res, w')"
  shows "\<exists>evs. trace w' = trace w @ evs \<and> refresh_failure_ends evs res"
  using assms
proof (induction "nat (max_refresh_attempts self - attempt)" arbitrary: attempt w mat rule: less_induct)
  case less
  let ?a = "derive_auth_request self timeout"
  from less.prems show ?case
  proof (cases rule: request_cases)
    case (before_failed rh w1 e)
    from copy_headers_eq(3) [OF before_failed(1)] before_failed(2) show ?thesis
      by (elim guarded_before_request) (auto intro!: refresh_failure_ends_no_refresh)
  next
    case (send_failed rh w1 x w2 e)
    from copy_headers_eq(3) [OF send_failed(1)] send_failed(2,3) show ?thesis
      by (elim guarded_before_request guarded_send) (auto intro!: refresh_failure_ends_no_refresh)
  next
    case (refresh_failed rh w1 x w2 resp rem w3 e)
    note c = copy_headers_eq(3) [OF refresh_failed(1)]
    from refresh_failed(2) obtain hin hout where
      b: "trace w2 = trace w1 @ [EvGuard mat, EvBeforeRequest ?a method url rh hin hout]"
      by (rule guarded_before_request) auto
    from refresh_failed(3) obtain hs where
      s: "trace w3 = trace w2 @ [EvGuard mat, EvSend (this self) method url data hs timeout kw]"
      by (rule guarded_send) auto
    let ?pre = "[EvCall attempt hdrs mat, EvGuard mat, EvBeforeRequest ?a method url rh hin hout,
      EvGuard mat, EvSend (this self) method url data hs timeout kw, EvGuard rem]"
    from refresh_failed(6) obtain raised tail where
      f: "trace w' = trace w3 @ EvGuard rem # EvRefresh ?a raised # tail"
        "tail = [] \<and> raised = Some e \<or> tail = [EvGuardTimeout] \<and> raised = None"
      by (rule guarded_refresh) (auto split: option.splits)
    have tr: "trace w' = trace w @ ?pre @ EvRefresh ?a raised # tail"
      using c b s f(1) by simp
    have "refresh_failure_ends (?pre @ EvRefresh ?a raised # tail) res"
      unfolding refresh_failure_ends_def
    proof (intro allI impI)
      fix a x
      assume "EvRefresh a (Some x) \<in> set (?pre @ EvRefresh ?a raised # tail)"
      with f(2) have ax: "a = ?a" "raised = Some x" by auto
      with f(2) refresh_failed(7) have "tail = []" "res = Inl x" by auto
      with ax have "?pre @ EvRefresh ?a raised # tail = ?pre @ [EvRefresh a (Some x)]" by simp
      with \<open>res = Inl x\<close>
      show "(\<exists>pre. ?pre @ EvRefresh ?a raised # tail = pre @ [EvRefresh a (Some x)]) \<and> res = Inl x"
        by blast
    qed
    with tr show ?thesis by blast
  next
    case (retry rh w1 x w2 resp rem w3 y rem' w4)
    note c = copy_headers_eq(3) [OF retry(1)]
    from retry(2) obtain hin hout where
      b: "trace w2 = trace w1 @ [EvGuard mat, EvBeforeRequest ?a method url rh hin hout]"
      by (rule guarded_before_request) auto
    from retry(3) obtain hs where
      s: "trace w3 = trace w2 @ [EvGuard mat, EvSend (this self) method url data hs timeout kw]"
      by (rule guarded_send) auto
    from retry(6) have
      f: "trace w4 = trace w3 @ [EvGuard rem, EvRefresh ?a None]"
      by (rule guarded_refresh) (auto split: option.splits)
    have lt: "nat (max_refresh_attempts self - (attempt + 1)) < nat (max_refresh_attempts self - attempt)"
      using retry(5) by simp
    from less.hyps [OF lt retry(7)] obtain evs where
      ih: "trace w' = trace w4 @ evs" "refresh_failure_ends evs res" by blast
    let ?fr = "[EvCall attempt hdrs mat, EvGuard mat, EvBeforeRequest ?a method url rh hin hout,
      EvGuard mat, EvSend (this self) method url data hs timeout kw, EvGuard rem, EvRefresh ?a None]"
    have "trace w' = trace w @ ?fr @ evs" using c b s f ih by simp
    moreover have "refresh_failure_ends (?fr @ evs) res"
      by (rule refresh_failure_ends_prepend [OF ih(2)]) simp
    ultimately show ?thesis by blast
  next
    case (close_failed rh w1 x w2 resp rem w3 e)
    from copy_headers_eq(3) [OF close_failed(1)] close_failed(2,3)
      close_auth_request_session_eq(3) [OF close_failed(5)] show ?thesis
      by (elim guarded_before_request guarded_send) (auto intro!: refresh_failure_ends_no_refresh)
  next
    case (returned rh w1 x w2 resp rem w3 u)
    from copy_headers_eq(3) [OF returned(1)] returned(2,3)
      close_auth_request_session_eq(3) [OF returned(5)] show ?thesis
      by (elim guarded_before_request guarded_send) (auto intro!: refresh_failure_ends_no_refresh)
  qed
qed

text \<open>
  The sends of a call and the decorations they carry; the trace against the
  collaborators.
\<close>

lemma replay_append:
  "replay C (xs @ ys) e = (case replay C xs e of None \<Rightarrow> None | Some e' \<Rightarrow> replay C ys e')"
  by (induction C xs e rule: replay.induct) (auto split: prod.splits)

lemma sends_decorated_no_send:
  assumes "\<And>s m u d hs t k. EvSend s m u d hs t k \<notin> set evs"
  shows "sends_decorated orig evs"
  unfolding sends_decorated_def
proof (intro allI impI)
  fix pre s m u d hs t k post
  assume "evs = pre @ EvSend s m u d hs t k # post"
  then have "EvSend s m u d hs t k \<in> set evs" by simp
  with assms show "\<exists>pre' a rh hout b.
      pre = pre' @ [EvBeforeRequest a m u rh orig hout, EvGuard b] \<and> hs = Some hout"
    by blast
qed

lemma sends_decorated_append:
  assumes xs: "sends_decorated orig xs" and ys: "sends_decorated orig ys"
  shows "sends_decorated orig (xs @ ys)"
  unfolding sends_decorated_def
proof (intro allI impI)
  fix pre s m u d hs t k post
  assume eq: "xs @ ys = pre @ EvSend s m u d hs t k # post"
  then obtain us where
    "xs = pre @ us \<and> us @ ys = EvSend s m u d hs t k # post
     \<or> xs @ us = pre \<and> ys = us @ EvSend s m u d hs t k # post"
    by (auto simp: append_eq_append_conv2)
  then show "\<exists>pre' a rh hout b.
      pre = pre' @ [EvBeforeRequest a m u rh orig hout, EvGuard b] \<and> hs = Some hout"
  proof
    assume A: "xs = pre @ us \<and> us @ ys = EvSend s m u d hs t k # post"
    show ?thesis
    proof (cases us)
      case Nil
      with A have "ys = [] @ EvSend s m u d hs t k # post" by simp
      with ys obtain pre' a rh hout b where
        "[] = pre' @ [EvBeforeRequest a m u rh orig hout, EvGuard b]"
        unfolding sends_decorated_def by blast
      then show ?thesis by simp
    next
      case (Cons z us')
      with A have "xs = pre @ EvSend s m u d hs t k # us'" by simp
      with xs show ?thesis unfolding sends_decorated_def by blast
    qed
  next
    assume B: "xs @ us = pre \<and> ys = us @ EvSend s m u d hs t k # post"
    with ys obtain pre' a rh hout b where
      p: "us = pre' @ [EvBeforeRequest a m u rh orig hout, EvGuard b]" "hs = Some hout"
      unfolding sends_decorated_def by blast
    with B have "pre = (xs @ pre') @ [EvBeforeRequest a m u rh orig hout, EvGuard b]" by auto
    with p(2) show ?thesis by blast
  qed
qed

lemma sends_decorated_frame:
  assumes "\<And>s m u d hs t k. EvSend s m u d hs t k \<notin> set p"
  shows "sends_decorated orig
    (p @ [EvBeforeRequest a m u rh orig hout, EvGuard b, EvSend s m u d (Some hout) t k])"
  unfolding sends_decorated_def
proof (intro allI impI)
  fix pre s' m' u' d' hs' t' k' post
  let ?B = "EvBeforeRequest a m u rh orig hout"
  let ?S = "EvSend s m u d (Some hout) t k"
  let ?S' = "EvSend s' m' u' d' hs' t' k'"
  assume eq: "p @ [?B, EvGuard b, ?S] = pre @ ?S' # post"
  show "\<exists>pre' a rh hout b.
      pre = pre' @ [EvBeforeRequest a m' u' rh orig hout, EvGuard b] \<and> hs' = Some hout"
  proof (cases post rule: rev_cases)
    case Nil
    with eq have "p @ [?B, EvGuard b] = pre \<and> ?S = ?S'" by auto
    then show ?thesis by auto
  next
    case (snoc post' z)
    with eq have "(p @ [?B, EvGuard b]) @ [?S] = (pre @ ?S' # post') @ [z]" by simp
    then have "p @ [?B, EvGuard b] = pre @ ?S' # post'" by simp
    then have "?S' \<in> set (p @ [?B, EvGuard b])" by simp
    with assms show ?thesis by auto
  qed
qed

lemma request_sends_aux:
  assumes "request C self method url data hdrs mat timeout kw attempt w = (res, w')"
    and "case hdrs of Some r \<Rightarrow> r < next_ref w | None \<Rightarrow> True"
  shows "\<exists>evs. trace w' = trace w @ evs
     \<and> sends_decorated (case hdrs of Some r \<Rightarrow> heap w r | None \<Rightarrow> []) evs
     \<and> replay C evs (env w) = Some (env w')"
  using assms
proof (induction "nat (max_refresh_attempts self - attempt)" arbitrary: attempt w mat rule: less_induct)
  case less
  let ?orig = "case hdrs of Some r \<Rightarrow> heap w r | None \<Rightarrow> []"
  let ?a = "derive_auth_request self timeout"
  from less.prems(1) show ?case
  proof (cases rule: request_cases)
    case (before_failed rh w1 e)
    note c = copy_headers_eq [OF before_failed(1)]
    from before_failed(2) obtain raised hout tail where
      b: "trace w' = trace w1 @ EvGuard mat # EvBeforeRequest ?a method url rh (heap w1 rh) hout # tail"
        "tail = [] \<or> tail = [EvGuardTimeout]"
        "before_request C ?a method url (heap w1 rh) (env w1) = ((raised, hout), env w')"
      by (rule guarded_before_request) blast
    let ?fr = "EvCall attempt hdrs mat # EvGuard mat # EvBeforeRequest ?a method url rh ?orig hout # tail"
    have tr: "trace w' = trace w @ ?fr" using c b by simp
    have sd: "sends_decorated ?orig ?fr"
      by (rule sends_decorated_no_send) (use b(2) in auto)
    have rp: "replay C ?fr (env w) = Some (env w')" using c b by auto
    from tr sd rp show ?thesis by blast
  next
    case (send_failed rh w1 x w2 e)
    note c = copy_headers_eq [OF send_failed(1)]
    from send_failed(2) obtain raised hout where
      b: "trace w2 = trace w1 @ [EvGuard mat, EvBeforeRequest ?a method url rh (heap w1 rh) hout]"
        "heap w2 = (heap w1)(rh := hout)"
        "before_request C ?a method url (heap w1 rh) (env w1) = ((raised, hout), env w2)"
      by (rule guarded_before_request) auto
    from send_failed(3) obtain answered tail where
      s: "trace w' = trace w2 @ EvGuard mat # EvSend (this self) method url data (Some (heap w2 rh)) timeout kw # tail"
        "tail = [] \<or> tail = [EvGuardTimeout]"
        "session_request C (this self) method url data (Some (heap w2 rh)) timeout kw (env w2) = (answered, env w')"
      by (rule guarded_send) blast
    let ?p = "[EvCall attempt hdrs mat, EvGuard mat]"
    let ?core = "[EvBeforeRequest ?a method url rh ?orig hout, EvGuard mat,
      EvSend (this self) method url data (Some hout) timeout kw]"
    have tr: "trace w' = trace w @ (?p @ ?core) @ tail" using c b s by simp
    have sd: "sends_decorated ?orig ((?p @ ?core) @ tail)"
      by (intro sends_decorated_append sends_decorated_frame sends_decorated_no_send)
         (use s(2) in auto)
    have rp: "replay C ((?p @ ?core) @ tail) (env w) = Some (env w')" using c b s by auto
    from tr sd rp show ?thesis by blast
  next
    case (refresh_failed rh w1 x w2 resp rem w3 e)
    note c = copy_headers_eq [OF refresh_failed(1)]
    from refresh_failed(2) obtain raised hout where
      b: "trace w2 = trace w1 @ [EvGuard mat, EvBeforeRequest ?a method url rh (heap w1 rh) hout]"
        "heap w2 = (heap w1)(rh := hout)"
        "before_request C ?a method url (heap w1 rh) (env w1) = ((raised, hout), env w2)"
      by (rule guarded_before_request) auto
    from refresh_failed(3) obtain answered where
      s: "trace w3 = trace w2 @ [EvGuard mat, EvSend (this self) method url data (Some (heap w2 rh)) timeout kw]"
        "session_request C (this self) method url data (Some (heap w2 rh)) timeout kw (env w2) = (answered, env w3)"
      by (rule guarded_send) auto
    from refresh_failed(6) obtain raised' tail where
      f: "trace w' = trace w3 @ EvGuard rem # EvRefresh ?a raised' # tail"
        "tail = [] \<or> tail = [EvGuardTimeout]"
        "refresh C ?a (env w3) = (raised', env w')"
      by (rule guarded_refresh) (auto split: option.splits)
    let ?p = "[EvCall attempt hdrs mat, EvGuard mat]"
    let ?core = "[EvBeforeRequest ?a method url rh ?orig hout, EvGuard mat,
      EvSend (this self) method url data (Some hout) timeout kw]"
    let ?q = "EvGuard rem # EvRefresh ?a raised' # tail"
    have tr: "trace w' = trace w @ (?p @ ?core) @ ?q" using c b s f by simp
    have sd: "sends_decorated ?orig ((?p @ ?core) @ ?q)"
      by (intro sends_decorated_append sends_decorated_frame sends_decorated_no_send)
         (use f(2) in auto)
    have rp: "replay C ((?p @ ?core) @ ?q) (env w) = Some (env w')" using c b s f by auto
    from tr sd rp show ?thesis by blast
  next
    case (retry rh w1 x w2 resp rem w3 y rem' w4)
    note c = copy_headers_eq [OF retry(1)]
    from retry(2) obtain raised hout where
      b: "trace w2 = trace w1 @ [EvGuard mat, EvBeforeRequest ?a method url rh (heap w1 rh) hout]"
        "heap w2 = (heap w1)(rh := hout)" "next_ref w2 = next_ref w1"
        "before_request C ?a method url (heap w1 rh) (env w1) = ((raised, hout), env w2)"
      by (rule guarded_before_request) auto
    from retry(3) obtain answered where
      s: "trace w3 = trace w2 @ [EvGuard mat, EvSend (this self) method url data (Some (heap w2 rh)) timeout kw]"
        "heap w3 = heap w2" "next_ref w3 = next_ref w2"
        "session_request C (this self) method url data (Some (heap w2 rh)) timeout kw (env w2) = (answered, env w3)"
      by (rule guarded_send) auto
    from retry(6) obtain raised' where
      f: "trace w4 = trace w3 @ [EvGuard rem, EvRefresh ?a raised']"
        "heap w4 = heap w3" "next_ref w4 = next_ref w3"
        "refresh C ?a (env w3) = (raised', env w4)"
      by (rule guarded_refresh) (auto split: option.splits)
    have lt: "nat (max_refresh_attempts self - (attempt + 1)) < nat (max_refresh_attempts self - attempt)"
      using retry(5) by simp
    have pre: "case hdrs of Some r \<Rightarrow> r < next_ref w4 | None \<Rightarrow> True"
      using less.prems(2) c b s f by (auto split: option.splits)
    have orig: "(case hdrs of Some r \<Rightarrow> heap w4 r | None \<Rightarrow> []) = ?orig"
      using less.prems(2) c b s f by (auto split: option.splits)
    from less.hyps [OF lt retry(7) pre] orig obtain evs where
      ih: "trace w' = trace w4 @ evs" "sends_decorated ?orig evs"
        "replay C evs (env w4) = Some (env w')"
      by auto
    let ?p = "[EvCall attempt hdrs mat, EvGuard mat]"
    let ?core = "[EvBeforeRequest ?a method url rh ?orig hout, EvGuard mat,
      EvSend (this self) method url data (Some hout) timeout kw]"
    let ?q = "[EvGuard rem, EvRefresh ?a raised']"
    have tr: "trace w' = trace w @ ((?p @ ?core) @ ?q) @ evs" using c b s f ih by simp
    have sd: "sends_decorated ?orig (((?p @ ?core) @ ?q) @ evs)"
      by (intro sends_decorated_append sends_decorated_frame sends_decorated_no_send ih(2)) auto
    have "replay C ((?p @ ?core) @ ?q) (env w) = Some (env w4)" using c b s f by auto
    with ih(3) have rp: "replay C (((?p @ ?core) @ ?q) @ evs) (env w) = Some (env w')"
      by (simp only: replay_append [of C "(?p @ ?core) @ ?q" evs] option.case)
    from tr sd rp show ?thesis by blast
  next
    case (close_failed rh w1 x w2 resp rem w3 e)
    note c = copy_headers_eq [OF close_failed(1)]
    from close_failed(2) obtain raised hout where
      b: "trace w2 = trace w1 @ [EvGuard mat, EvBeforeRequest ?a method url rh (heap w1 rh) hout]"
        "heap w2 = (heap w1)(rh := hout)"
        "before_request C ?a method url (heap w1 rh) (env w1) = ((raised, hout), env w2)"
      by (rule guarded_before_request) auto
    from close_failed(3) obtain answered where
      s: "trace w3 = trace w2 @ [EvGuard mat, EvSend (this self) method url data (Some (heap w2 rh)) timeout kw]"
        "session_request C (this self) method url data (Some (heap w2 rh)) timeout kw (env w2) = (answered, env w3)"
      by (rule guarded_send) auto
    from close_auth_request_session_eq [OF close_failed(5)] have f: "w' = w3" by auto
    let ?p = "[EvCall attempt hdrs mat, EvGuard mat]"
    let ?core = "[EvBeforeRequest ?a method url rh ?orig hout, EvGuard mat,
      EvSend (this self) method url data (Some hout) timeout kw]"
    have tr: "trace w' = trace w @ ?p @ ?core" using c b s f by simp
    have sd: "sends_decorated ?orig (?p @ ?core)"
      by (intro sends_decorated_frame) auto
    have rp: "replay C (?p @ ?core) (env w) = Some (env w')" using c b s f by auto
    from tr sd rp show ?thesis by blast
  next
    case (returned rh w1 x w2 resp rem w3 u)
    note c = copy_headers_eq [OF returned(1)]
    from returned(2) obtain raised hout where
      b: "trace w2 = trace w1 @ [EvGuard mat, EvBeforeRequest ?a method url rh (heap w1 rh) hout]"
        "heap w2 = (heap w1)(rh := hout)"
        "before_request C ?a method url (heap w1 rh) (env w1) = ((raised, hout), env w2)"
      by (rule guarded_before_request) auto
    from returned(3) obtain answered where
      s: "trace w3 = trace w2 @ [EvGuard mat, EvSend (this self) method url data (Some (heap w2 rh)) timeout kw]"
        "session_request C (this self) method url data (Some (heap w2 rh)) timeout kw (env w2) = (answered, env w3)"
      by (rule guarded_send) auto
    from close_auth_request_session_eq [OF returned(5)] obtain cs where
      f: "trace w' = trace w3 @ [EvClose cs]" "env w' = env w3"
      by auto
    let ?p = "[EvCall attempt hdrs mat, EvGuard mat]"
    let ?core = "[EvBeforeRequest ?a method url rh ?orig hout, EvGuard mat,
      EvSend (this self) method url data (Some hout) timeout kw]"
    have tr: "trace w' = trace w @ (?p @ ?core) @ [EvClose cs]" using c b s f by simp
    have sd: "sends_decorated ?orig ((?p @ ?core) @ [EvClose cs])"
      by (intro sends_decorated_append sends_decorated_frame sends_decorated_no_send) auto
    have rp: "replay C ((?p @ ?core) @ [EvClose cs]) (env w) = Some (env w')"
      using c b s f by auto
    from tr sd rp show ?thesis by blast
  qed
qed

text \<open>
  Three facts about every call, whatever the collaborators do. A call entered from
  outside refreshes at most \<^verbatim>\<open>max_refresh_attempts\<close> times (never, when that bound
  is not positive). A call that returns a response has closed the session's own
  auth-request session as the last thing it did. And a call on a session whose
  \<^verbatim>\<open>_auth_request_session\<close> is \<^verbatim>\<open>None\<close> never returns a response.
\<close>

lemma count_refreshes_append:
  "count_refreshes (xs @ ys) = count_refreshes xs + count_refreshes ys"
  by (simp add: count_refreshes_def)

lemma request_refresh_bound_aux:
  assumes "request C self method url data hdrs mat timeout kw attempt w = (res, w')"
  shows "\<exists>evs. trace w' = trace w @ evs
     \<and> count_refreshes evs \<le> nat (max_refresh_attempts self - attempt)"
  using assms
proof (induction "nat (max_refresh_attempts self - attempt)" arbitrary: attempt w mat rule: less_induct)
  case less
  from less.prems show ?case
  proof (cases rule: request_cases)
    case (before_failed rh w1 e)
    from copy_headers_eq(3) [OF before_failed(1)] before_failed(2) show ?thesis
      by (elim guarded_before_request) (auto simp: count_refreshes_def)
  next
    case (send_failed rh w1 x w2 e)
    from copy_headers_eq(3) [OF send_failed(1)] send_failed(2,3) show ?thesis
      by (elim guarded_before_request guarded_send) (auto simp: count_refreshes_def)
  next
    case (refresh_failed rh w1 x w2 resp rem w3 e)
    from copy_headers_eq(3) [OF refresh_failed(1)] refresh_failed(2,3,5,6) show ?thesis
      by (elim guarded_before_request guarded_send guarded_refresh)
         (auto simp: count_refreshes_def split: option.splits)
  next
    case (retry rh w1 x w2 resp rem w3 y rem' w4)
    have lt: "nat (max_refresh_attempts self - (attempt + 1)) < nat (max_refresh_attempts self - attempt)"
      using retry(5) by simp
    from less.hyps [OF lt retry(7)] obtain evs where
      ih: "trace w' = trace w4 @ evs"
        "count_refreshes evs \<le> nat (max_refresh_attempts self - (attempt + 1))" by blast
    from copy_headers_eq(3) [OF retry(1)] retry(2,3,5,6) ih show ?thesis
      by (elim guarded_before_request guarded_send guarded_refresh)
         (auto simp: count_refreshes_def split: option.splits)
  next
    case (close_failed rh w1 x w2 resp rem w3 e)
    from copy_headers_eq(3) [OF close_failed(1)] close_failed(2,3)
      close_auth_request_session_eq(3) [OF close_failed(5)] show ?thesis
      by (elim guarded_before_request guarded_send) (auto simp: count_refreshes_def)
  next
    case (returned rh w1 x w2 resp rem w3 u)
    from copy_headers_eq(3) [OF returned(1)] returned(2,3)
      close_auth_request_session_eq(3) [OF returned(5)] show ?thesis
      by (elim guarded_before_request guarded_send) (auto simp: count_refreshes_def)
  qed
qed

lemma request_refresh_bound:
  assumes "request C self method url data hdrs mat timeout kw 0 w = (res, w')"
  shows "count_refreshes (emitted w w') \<le> nat (max_refresh_attempts self)"
  using request_refresh_bound_aux [OF assms] by (auto simp: emitted_append)

lemma request_returns_only_after_close:
  assumes "request C self method url data hdrs mat timeout kw attempt w = (Inr resp, w')"
  shows "\<exists>s. auth_request_session self = Some s \<and> (\<exists>pre. emitted w w' = pre @ [EvClose s])"
  using assms
proof (induction "nat (max_refresh_attempts self - attempt)" arbitrary: attempt w mat rule: less_induct)
  case less
  from less.prems show ?case
  proof (cases rule: request_cases)
    case (retry rh w1 x w2 resp' rem w3 y rem' w4)
    have lt: "nat (max_refresh_attempts self - (attempt + 1)) < nat (max_refresh_attempts self - attempt)"
      using retry(5) by simp
    from less.hyps [OF lt retry(7)] obtain s pre where
      ih: "auth_request_session self = Some s" "emitted w4 w' = pre @ [EvClose s]" by blast
    from request_refresh_bound_aux [OF retry(7)] obtain evs where
      evs: "trace w' = trace w4 @ evs" by blast
    with ih have evs': "evs = pre @ [EvClose s]" by (simp add: emitted_append)
    from copy_headers_eq(3) [OF retry(1)] retry(2,3,6) evs evs' obtain fr where
      "trace w' = trace w @ fr @ pre @ [EvClose s]"
      by (elim guarded_before_request guarded_send guarded_refresh) (auto split: option.splits)
    then have "emitted w w' = (fr @ pre) @ [EvClose s]" by (simp add: emitted_def)
    with ih(1) show ?thesis by blast
  next
    case (returned rh w1 x w2 resp' rem w3 u)
    from close_auth_request_session_eq(3) [OF returned(5)] obtain s where
      s: "auth_request_session self = Some s" "trace w' = trace w3 @ [EvClose s]" by auto
    from copy_headers_eq(3) [OF returned(1)] returned(2,3) s(2) obtain fr where
      "trace w' = trace w @ fr @ [EvClose s]"
      by (elim guarded_before_request guarded_send) auto
    then have "emitted w w' = fr @ [EvClose s]" by (simp add: emitted_def)
    with s(1) show ?thesis by blast
  qed simp_all
qed

lemma request_supplied_auth_request_never_returns:
  assumes "request C self method url data hdrs mat timeout kw attempt w = (res, w')"
    and "auth_request_session self = None"
  shows "\<exists>e. res = Inl e"
proof (cases res)
  case (Inl e)
  then show ?thesis by simp
next
  case (Inr resp)
  with assms(1) have "request C self method url data hdrs mat timeout kw attempt w = (Inr resp, w')"
    by simp
  from request_returns_only_after_close [OF this] assms(2) show ?thesis by auto
qed

section \<open>Runs of the scripted environment\<close>

text \<open>A run is one call of \<^verbatim>\<open>request\<close>, and its observation reads that call.\<close>

lemma run_request:
  assumes "run C answers codes n a hs mat = (self, hdrs, w, res, w')"
  shows "request C self ''GET'' ''https://example.test/'' None hdrs mat (Some DEFAULT_TIMEOUT) [] 0 w
           = (res, w')"
    and "obs_events (observe (run C answers codes n a hs mat)) = emitted w w'"
    and "obs_result (observe (run C answers codes n a hs mat)) = res"
    and "hs = None \<Longrightarrow> hdrs = None"
    and "\<And>h. hs = Some h \<Longrightarrow> \<exists>r. hdrs = Some r \<and> r < next_ref w \<and> heap w r = h
           \<and> obs_headers (observe (run C answers codes n a hs mat)) = Some (heap w' r)"
  using assms
  by (auto simp: run_def observe_def new_ref_def Let_def split: prod.splits option.splits)

text \<open>The runs used below, each evaluated once: the whole observation, trace included.\<close>

lemma run_whole_budget:
  "observe (run (scripted 4 7 1 None) [Inr 200] [401] 2 None None (Some 10)) =
   Observation (Inr \<lparr>status = 200, headers = [], content = []\<rparr>)
    [EvCall 0 None (Some 10), EvGuard (Some 10),
     EvBeforeRequest (Partial (Invoker (Request 1)) 180) ''GET'' ''https://example.test/'' 2 []
       [(''authorization'', ''Bearer t0'')],
     EvGuard (Some 10),
     EvSend 0 ''GET'' ''https://example.test/'' None (Some [(''authorization'', ''Bearer t0'')])
       (Some 180) [],
     EvClose 1]
    {1} 11 None (Some 1)"
  by (simp add: run_simps)

lemma run_supplied_ok:
  "observe (run (scripted 1 1 1 None) [Inr 200] [401] 2 (Some (Callable ''auth'')) None None) =
   Observation (Inl (AttributeError ''close''))
    [EvCall 0 None None, EvGuard None,
     EvBeforeRequest (Partial (Callable ''auth'') 180) ''GET'' ''https://example.test/'' 1 []
       [(''authorization'', ''Bearer t0'')],
     EvGuard None,
     EvSend 0 ''GET'' ''https://example.test/'' None (Some [(''authorization'', ''Bearer t0'')])
       (Some 180) []]
    {} 2 None None"
  by (simp add: run_simps)

lemma run_supplied_forbidden:
  "observe (run (scripted 1 1 1 None) [Inr 403] [401] 2 (Some (Callable ''auth'')) None None) =
   Observation (Inl (AttributeError ''close''))
    [EvCall 0 None None, EvGuard None,
     EvBeforeRequest (Partial (Callable ''auth'') 180) ''GET'' ''https://example.test/'' 1 []
       [(''authorization'', ''Bearer t0'')],
     EvGuard None,
     EvSend 0 ''GET'' ''https://example.test/'' None (Some [(''authorization'', ''Bearer t0'')])
       (Some 180) []]
    {} 2 None None"
  by (simp add: run_simps)

lemma run_supplied_exhausted:
  "observe (run (scripted 1 1 1 None) [Inr 401, Inr 401, Inr 401] [401] 2
     (Some (Callable ''auth'')) None None) =
   Observation (Inl (AttributeError ''close''))
    [EvCall 0 None None, EvGuard None,
     EvBeforeRequest (Partial (Callable ''auth'') 180) ''GET'' ''https://example.test/'' 1 []
       [(''authorization'', ''Bearer t0'')],
     EvGuard None,
     EvSend 0 ''GET'' ''https://example.test/'' None (Some [(''authorization'', ''Bearer t0'')])
       (Some 180) [],
     EvGuard None, EvRefresh (Partial (Callable ''auth'') 180) None,
     EvCall 1 None None, EvGuard None,
     EvBeforeRequest (Partial (Callable ''auth'') 180) ''GET'' ''https://example.test/'' 2 []
       [(''authorization'', ''Bearer t1'')],
     EvGuard None,
     EvSend 0 ''GET'' ''https://example.test/'' None (Some [(''authorization'', ''Bearer t1'')])
       (Some 180) [],
     EvGuard None, EvRefresh (Partial (Callable ''auth'') 180) None,
     EvCall 2 None None, EvGuard None,
     EvBeforeRequest (Partial (Callable ''auth'') 180) ''GET'' ''https://example.test/'' 3 []
       [(''authorization'', ''Bearer t2'')],
     EvGuard None,
     EvSend 0 ''GET'' ''https://example.test/'' None (Some [(''authorization'', ''Bearer t2'')])
       (Some 180) []]
    {} 8 None None"
  by (simp add: run_simps)

lemma run_caller_headers:
  "observe (run (scripted 1 1 1 None) [Inr 401, Inr 200] [401] 2 None
     (Some [(''accept'', ''text/plain'')]) None) =
   Observation (Inr \<lparr>status = 200, headers = [], content = []\<rparr>)
    [EvCall 0 (Some 2) None, EvGuard None,
     EvBeforeRequest (Partial (Invoker (Request 1)) 180) ''GET'' ''https://example.test/'' 3
       [(''accept'', ''text/plain'')]
       [(''accept'', ''text/plain''), (''authorization'', ''Bearer t0'')],
     EvGuard None,
     EvSend 0 ''GET'' ''https://example.test/'' None
       (Some [(''accept'', ''text/plain''), (''authorization'', ''Bearer t0'')]) (Some 180) [],
     EvGuard None, EvRefresh (Partial (Invoker (Request 1)) 180) None,
     EvCall 1 (Some 2) None, EvGuard None,
     EvBeforeRequest (Partial (Invoker (Request 1)) 180) ''GET'' ''https://example.test/'' 4
       [(''accept'', ''text/plain'')]
       [(''accept'', ''text/plain''), (''authorization'', ''Bearer t1'')],
     EvGuard None,
     EvSend 0 ''GET'' ''https://example.test/'' None
       (Some [(''accept'', ''text/plain''), (''authorization'', ''Bearer t1'')]) (Some 180) [],
     EvClose 1]
    {1} 5 (Some [(''accept'', ''text/plain'')]) (Some 1)"
  by (simp add: run_simps)

lemma run_slow_refresh:
  "observe (run (scripted 1 1 1000000 None) [Inr 401, Inr 200] [401] 2 None None None) =
   Observation (Inr \<lparr>status = 200, headers = [], content = []\<rparr>)
    [EvCall 0 None None, EvGuard None,
     EvBeforeRequest (Partial (Invoker (Request 1)) 180) ''GET'' ''https://example.test/'' 2 []
       [(''authorization'', ''Bearer t0'')],
     EvGuard None,
     EvSend 0 ''GET'' ''https://example.test/'' None (Some [(''authorization'', ''Bearer t0'')])
       (Some 180) [],
     EvGuard None, EvRefresh (Partial (Invoker (Request 1)) 180) None,
     EvCall 1 None None, EvGuard None,
     EvBeforeRequest (Partial (Invoker (Request 1)) 180) ''GET'' ''https://example.test/'' 3 []
       [(''authorization'', ''Bearer t1'')],
     EvGuard None,
     EvSend 0 ''GET'' ''https://example.test/'' None (Some [(''authorization'', ''Bearer t1'')])
       (Some 180) [],
     EvClose 1]
    {1} 1000004 None (Some 1)"
  by (simp add: run_simps)

lemma run_refresh_raises_late:
  "observe (run (scripted 1 1 10 (Some (OtherError ''RefreshError''))) [Inr 401] [401] 2
     None None (Some 5)) =
   Observation (Inl (OtherError ''RefreshError''))
    [EvCall 0 None (Some 5), EvGuard (Some 5),
     EvBeforeRequest (Partial (Invoker (Request 1)) 180) ''GET'' ''https://example.test/'' 2 []
       [(''authorization'', ''Bearer t0'')],
     EvGuard (Some 5),
     EvSend 0 ''GET'' ''https://example.test/'' None (Some [(''authorization'', ''Bearer t0'')])
       (Some 180) [],
     EvGuard (Some 4),
     EvRefresh (Partial (Invoker (Request 1)) 180) (Some (OtherError ''RefreshError''))]
    {} 12 None (Some 1)"
  by (simp add: run_simps)

section \<open>The request invoker is a single-attempt primitive\<close>

text \<open>
  Claim C6. For every invocation of \<^verbatim>\<open>Request.__call__\<close>: if the underlying
  session raises an \<^verbatim>\<open>aiohttp.ClientError\<close> or an \<^verbatim>\<open>asyncio.TimeoutError\<close>, the
  invoker fails with a \<^verbatim>\<open>TransportError\<close> wrapping exactly that exception; if the
  session answers, the invoker returns a response whose \<open>status\<close>, \<open>headers\<close> and
  \<open>data\<close> are those of the raw response. In every case the session is called
  exactly once, with the arguments of the invocation, so nothing is retried.
\<close>

theorem Request_call_single_attempt:
  assumes "session_request C (session self) method url body hdrs timeout kw (env w) = (r, e')"
  shows "\<exists>out w'. Request_call C self url method body hdrs timeout kw w = (out, w')
    \<and> (\<forall>msg. r = Inl (ClientError msg) \<longrightarrow> out = Inl (TransportError (ClientError msg)))
    \<and> (r = Inl TimeoutError \<longrightarrow> out = Inl (TransportError TimeoutError))
    \<and> (\<forall>resp. r = Inr resp \<longrightarrow>
          (\<exists>v. out = Inr v \<and> Response_status v = status resp
             \<and> Response_headers v = headers resp \<and> Response_data v = content resp))
    \<and> emitted w w' = [EvSend (session self) method url body hdrs timeout kw]
    \<and> env w' = e'"
proof (cases r)
  case (Inl caught)
  with assms show ?thesis
    by (cases caught) (simp_all add: Request_call_def emitted_def emit_def)
next
  case (Inr resp)
  with assms show ?thesis
    by (simp add: Request_call_def emitted_def emit_def Response_status_def
        Response_headers_def Response_data_def)
qed

text \<open>
  The theorem at three invocations: a session that raises a client error, one that
  times out, and one that answers 200.
\<close>

theorem Request_call_single_attempt_witness:
  "fst (Request_call (scripted 0 1 0 None) (Request 7) ''https://example.test/'' ''GET''
          None None (Some 180) [] (world0 [Inl (ClientError ''connection reset'')]))
     = Inl (TransportError (ClientError ''connection reset''))
   \<and> fst (Request_call (scripted 0 1 0 None) (Request 7) ''https://example.test/'' ''GET''
          None None (Some 180) [] (world0 [Inl TimeoutError]))
     = Inl (TransportError TimeoutError)
   \<and> (\<exists>v. fst (Request_call (scripted 0 1 0 None) (Request 7) ''https://example.test/'' ''GET''
          None None (Some 180) [] (world0 [Inr 200])) = Inr v
        \<and> Response_status v = 200 \<and> Response_headers v = [] \<and> Response_data v = [])"
proof -
  let ?url = "''https://example.test/''"
  let ?C = "scripted 0 1 0 None"
  have h1: "session_request ?C (session (Request 7)) ''GET'' ?url None None (Some 180) []
              (env (world0 [Inl (ClientError ''connection reset'')]))
            = (Inl (ClientError ''connection reset''), (1, [], 0))"
    by (simp add: scripted_def world0_def)
  have h2: "session_request ?C (session (Request 7)) ''GET'' ?url None None (Some 180) []
              (env (world0 [Inl TimeoutError])) = (Inl TimeoutError, (1, [], 0))"
    by (simp add: scripted_def world0_def)
  have h3: "session_request ?C (session (Request 7)) ''GET'' ?url None None (Some 180) []
              (env (world0 [Inr 200]))
            = (Inr \<lparr>status = 200, headers = [], content = []\<rparr>, (1, [], 0))"
    by (simp add: scripted_def world0_def)
  from Request_call_single_attempt [OF h1] Request_call_single_attempt [OF h2]
    Request_call_single_attempt [OF h3]
  show ?thesis by auto
qed

section \<open>Runs on which the code departs from its description\<close>

text \<open>
  Claim C1. With \<^verbatim>\<open>max_allowed_time\<close> set, the guard around the send should run with
  \<^verbatim>\<open>max_allowed_time\<close> less the time spent in \<^verbatim>\<open>before_request\<close>. In the code the
  first guard's \<^verbatim>\<open>remaining_timeout\<close> is never read (line 246 passes the value
  assigned on line 241), so the send guard gets the whole budget again. The run
  below has a budget of 10 seconds, a \<^verbatim>\<open>before_request\<close> of 4 seconds and a send of 7
  seconds: both guards are entered with budget 10, and the call returns the response
  after 11 seconds, where a send guard with budget 6 would have raised the timeout.
\<close>

theorem request_send_guard_gets_whole_budget:
  "guard_budgets (obs_events (observe
      (run (scripted 4 7 1 None) [Inr 200] [401] 2 None None (Some 10)))) = [Some 10, Some 10]
   \<and> obs_result (observe (run (scripted 4 7 1 None) [Inr 200] [401] 2 None None (Some 10)))
       = Inr \<lparr>status = 200, headers = [], content = []\<rparr>
   \<and> obs_clock (observe (run (scripted 4 7 1 None) [Inr 200] [401] 2 None None (Some 10))) = 11"
  by (simp add: run_whole_budget guard_budgets_def)

text \<open>
  Claim C2. The terminal return should close the auth-request session only when the
  session created it, and should still succeed when the caller supplied an
  \<^verbatim>\<open>auth_request\<close>. In the code line 297 calls \<^verbatim>\<open>close\<close> on
  \<^verbatim>\<open>self._auth_request_session\<close> unconditionally. The run below constructs the
  session with a caller-supplied \<^verbatim>\<open>auth_request\<close> and gets a 200 from the transport:
  \<^verbatim>\<open>_auth_request_session\<close> is \<^verbatim>\<open>None\<close>, the call raises \<^verbatim>\<open>AttributeError\<close> in place of
  returning the response, and nothing is closed. By
  \<open>request_supplied_auth_request_never_returns\<close> no call on such a session returns.
\<close>

theorem request_supplied_auth_request_raises:
  "obs_auth_session (observe
      (run (scripted 1 1 1 None) [Inr 200] [401] 2 (Some (Callable ''auth'')) None None)) = None
   \<and> obs_result (observe
      (run (scripted 1 1 1 None) [Inr 200] [401] 2 (Some (Callable ''auth'')) None None))
       = Inl (AttributeError ''close'')
   \<and> obs_closed (observe
      (run (scripted 1 1 1 None) [Inr 200] [401] 2 (Some (Callable ''auth'')) None None)) = {}"
  by (simp add: run_supplied_ok)

text \<open>
  Claim C3. With \<^verbatim>\<open>max_refresh_attempts = N\<close> a call should refresh at most \<open>N\<close>
  times and, once the attempts are used up, return the last response. The run below
  has \<open>N = 2\<close>, a transport that answers 401 each time and a caller-supplied
  \<^verbatim>\<open>auth_request\<close>: the call sends three times and refreshes twice, and then raises
  \<^verbatim>\<open>AttributeError\<close> on line 297 in place of returning the last 401 response. The
  bound on the refreshes holds on every call, by \<open>request_refresh_bound\<close>.
\<close>

theorem request_exhausted_supplied_auth_request_raises:
  "obs_result (observe (run (scripted 1 1 1 None) [Inr 401, Inr 401, Inr 401] [401] 2
      (Some (Callable ''auth'')) None None)) = Inl (AttributeError ''close'')
   \<and> count_refreshes (obs_events (observe (run (scripted 1 1 1 None)
      [Inr 401, Inr 401, Inr 401] [401] 2 (Some (Callable ''auth'')) None None))) = 2
   \<and> count_sends (obs_events (observe (run (scripted 1 1 1 None)
      [Inr 401, Inr 401, Inr 401] [401] 2 (Some (Callable ''auth'')) None None))) = 3"
  by (simp add: run_supplied_exhausted count_refreshes_def count_sends_def)

text \<open>
  Claim C5. A call whose first response has a status outside
  \<^verbatim>\<open>refresh_status_codes\<close> should send once, refresh never and return that response
  unchanged. The run below answers 403 to a session with status codes \<open>[401]\<close> and a
  caller-supplied \<^verbatim>\<open>auth_request\<close>: one send, no refresh, and then the
  \<^verbatim>\<open>AttributeError\<close> of line 297 in place of the 403 response.
\<close>

theorem request_no_refresh_supplied_auth_request_raises:
  "obs_result (observe (run (scripted 1 1 1 None) [Inr 403] [401] 2
      (Some (Callable ''auth'')) None None)) = Inl (AttributeError ''close'')
   \<and> count_refreshes (obs_events (observe (run (scripted 1 1 1 None) [Inr 403] [401] 2
      (Some (Callable ''auth'')) None None))) = 0
   \<and> count_sends (obs_events (observe (run (scripted 1 1 1 None) [Inr 403] [401] 2
      (Some (Callable ''auth'')) None None))) = 1"
  by (simp add: run_supplied_forbidden count_refreshes_def count_sends_def)

section \<open>Headers\<close>

text \<open>
  Claim C4. For every call of \<^verbatim>\<open>request\<close> with a caller-supplied headers mapping
  (a reference \<open>r\<close> to a mapping that exists when the call starts): the mapping holds
  at the end what it held at the start; every frame of the call, the retries
  included, is entered with that same reference as its \<^verbatim>\<open>headers\<close>; every
  \<^verbatim>\<open>before_request\<close> works on another mapping than the caller's, which holds the
  caller's original contents when it is handed over; every send comes right after
  the \<^verbatim>\<open>before_request\<close> of its own attempt (only the entry of the send's guard
  lies between) and carries the contents that this \<^verbatim>\<open>before_request\<close> left; and
  the trace is the collaborators' own: replayed from the environment the call
  started in, the credentials and the transport, called in this order on these
  arguments, leave the contents the trace records and end in the environment the
  call ended in. So a retried send carries what the credentials make of the original
  headers after the refresh, and nothing of the failed attempt.
\<close>

theorem request_keeps_caller_headers:
  assumes req: "request C self method url data (Some r) mat timeout kw attempt w = (res, w')"
    and alloc: "r < next_ref w"
  shows "heap w' r = heap w r
    \<and> (\<forall>a h m. EvCall a h m \<in> set (emitted w w') \<longrightarrow> h = Some r)
    \<and> (\<forall>a m u rh hin hout. EvBeforeRequest a m u rh hin hout \<in> set (emitted w w')
          \<longrightarrow> rh \<noteq> r \<and> hin = heap w r)
    \<and> (\<forall>pre s m u d hs t k post. emitted w w' = pre @ EvSend s m u d hs t k # post
          \<longrightarrow> (\<exists>pre' a rh hout b.
                 pre = pre' @ [EvBeforeRequest a m u rh (heap w r) hout, EvGuard b]
                 \<and> hs = Some hout))
    \<and> replay C (emitted w w') (env w) = Some (env w')"
proof -
  from request_headers_aux [OF req] alloc obtain evs where
    tr: "trace w' = trace w @ evs" and frame: "\<forall>r' < next_ref w. heap w' r' = heap w r'"
    and inv: "headers_inv (Some r) (heap w r) (next_ref w) (next_ref w') evs"
    by auto
  from tr have E: "emitted w w' = evs" by (rule emitted_append)
  from request_sends_aux [OF req] alloc obtain evs' where
    "trace w' = trace w @ evs'" and sd': "sends_decorated (heap w r) evs'"
    and rp': "replay C evs' (env w) = Some (env w')"
    by auto
  with tr have sd: "sends_decorated (heap w r) evs" and rp: "replay C evs (env w) = Some (env w')"
    by simp_all
  from frame alloc have 1: "heap w' r = heap w r" by simp
  from inv have 2: "\<forall>a h m. EvCall a h m \<in> set evs \<longrightarrow> h = Some r"
    unfolding headers_inv_def by blast
  from inv alloc have 3: "\<forall>a m u rh hin hout. EvBeforeRequest a m u rh hin hout \<in> set evs
          \<longrightarrow> rh \<noteq> r \<and> hin = heap w r"
    unfolding headers_inv_def by fastforce
  from sd have 4: "\<forall>pre s m u d hs t k post. evs = pre @ EvSend s m u d hs t k # post
          \<longrightarrow> (\<exists>pre' a rh hout b.
                 pre = pre' @ [EvBeforeRequest a m u rh (heap w r) hout, EvGuard b]
                 \<and> hs = Some hout)"
    unfolding sends_decorated_def .
  from 1 2 3 4 rp show ?thesis unfolding E by (intro conjI)
qed

text \<open>
  The theorem at a run with the caller's headers \<open>accept: text/plain\<close>, a 401 and
  then a 200: the caller's mapping is as it was, the first send carries the token
  \<open>t0\<close> and the retried send the token \<open>t1\<close> that the refresh brought.
\<close>

theorem request_keeps_caller_headers_witness:
  "obs_headers (observe (run (scripted 1 1 1 None) [Inr 401, Inr 200] [401] 2 None
      (Some [(''accept'', ''text/plain'')]) None)) = Some [(''accept'', ''text/plain'')]
   \<and> sent_headers (obs_events (observe (run (scripted 1 1 1 None) [Inr 401, Inr 200] [401] 2
      None (Some [(''accept'', ''text/plain'')]) None)))
      = [Some [(''accept'', ''text/plain''), (''authorization'', ''Bearer t0'')],
         Some [(''accept'', ''text/plain''), (''authorization'', ''Bearer t1'')]]"
proof -
  let ?R = "run (scripted 1 1 1 None) [Inr 401, Inr 200] [401] 2 None
      (Some [(''accept'', ''text/plain'')]) None"
  obtain self hdrs w res w' where r: "?R = (self, hdrs, w, res, w')"
    by (cases ?R)
  from run_request(5) [OF r] obtain c where
    c: "hdrs = Some c" "c < next_ref w" "heap w c = [(''accept'', ''text/plain'')]"
      "obs_headers (observe ?R) = Some (heap w' c)"
    by auto
  from request_keeps_caller_headers [OF run_request(1) [OF r, unfolded c(1)] c(2)]
  have "heap w' c = heap w c" by blast
  with c have "obs_headers (observe ?R) = Some [(''accept'', ''text/plain'')]" by simp
  then show ?thesis by (simp add: run_caller_headers sent_headers_def)
qed

text \<open>
  Claim C10. For every call of \<^verbatim>\<open>request\<close> with \<^verbatim>\<open>headers=None\<close>: the call goes
  on to \<^verbatim>\<open>before_request\<close> with a newly allocated, empty mapping; every frame, the
  retries included, is entered with \<^verbatim>\<open>headers=None\<close>; every \<^verbatim>\<open>before_request\<close> is
  handed an empty mapping that did not exist when the call started, and no two of
  them the same one; and every send carries what a \<^verbatim>\<open>before_request\<close> of this
  call made of an empty mapping.
\<close>

theorem request_without_headers_starts_empty:
  assumes req: "request C self method url data None mat timeout kw attempt w = (res, w')"
  shows "(\<exists>a hout rest. emitted w w' = EvCall attempt None mat # EvGuard mat
            # EvBeforeRequest a method url (next_ref w) [] hout # rest)
    \<and> (\<forall>a h m. EvCall a h m \<in> set (emitted w w') \<longrightarrow> h = None)
    \<and> (\<forall>a m u rh hin hout. EvBeforeRequest a m u rh hin hout \<in> set (emitted w w')
          \<longrightarrow> hin = [] \<and> next_ref w \<le> rh)
    \<and> (\<forall>s m u d hs t k. EvSend s m u d hs t k \<in> set (emitted w w')
          \<longrightarrow> (\<exists>a m' u' rh hout.
                 EvBeforeRequest a m' u' rh [] hout \<in> set (emitted w w') \<and> hs = Some hout))
    \<and> distinct (decorated_refs (emitted w w'))"
proof -
  from request_headers_aux [OF req] obtain evs where
    tr: "trace w' = trace w @ evs"
    and inv: "headers_inv None [] (next_ref w) (next_ref w') evs"
    and start: "\<exists>a hout rest. evs = EvCall attempt None mat # EvGuard mat
           # EvBeforeRequest a method url (next_ref w) [] hout # rest"
    by auto
  from tr have E: "emitted w w' = evs" by (rule emitted_append)
  from inv have 2: "\<forall>a m u rh hin hout. EvBeforeRequest a m u rh hin hout \<in> set evs
          \<longrightarrow> hin = [] \<and> next_ref w \<le> rh"
    unfolding headers_inv_def by fastforce
  from inv start 2 show ?thesis unfolding E headers_inv_def by blast
qed

text \<open>
  The theorem at a run without headers, a 401 and then a 200: the two attempts
  decorate the two new mappings 2 and 3.
\<close>

theorem request_without_headers_starts_empty_witness:
  "distinct (decorated_refs (obs_events (observe
      (run (scripted 1 1 1000000 None) [Inr 401, Inr 200] [401] 2 None None None))))
   \<and> decorated_refs (obs_events (observe
      (run (scripted 1 1 1000000 None) [Inr 401, Inr 200] [401] 2 None None None))) = [2, 3]"
proof -
  let ?R = "run (scripted 1 1 1000000 None) [Inr 401, Inr 200] [401] 2 None None None"
  obtain self hdrs w res w' where r: "?R = (self, hdrs, w, res, w')"
    by (cases ?R)
  from run_request(4) [OF r] have h: "hdrs = None" by simp
  from request_without_headers_starts_empty [OF run_request(1) [OF r, unfolded h]]
  have "distinct (decorated_refs (emitted w w'))" by blast
  then have "distinct (decorated_refs (obs_events (observe ?R)))"
    by (simp add: run_request(2) [OF r])
  then show ?thesis by (simp add: run_slow_refresh decorated_refs_def)
qed

section \<open>The time budget\<close>

text \<open>
  Claim C8. For every call of \<^verbatim>\<open>request\<close> with \<^verbatim>\<open>max_allowed_time\<close> unset,
  whatever the collaborators do and however long they take: no guard raises a
  timeout, at any depth of the recursion; every guard is entered with the unlimited
  budget; and every recursive call is entered with \<^verbatim>\<open>max_allowed_time\<close> unset.
\<close>

theorem request_unset_budget_never_times_out:
  assumes req: "request C self method url data hdrs None timeout kw attempt w = (res, w')"
  shows "EvGuardTimeout \<notin> set (emitted w w')
    \<and> (\<forall>b. EvGuard b \<in> set (emitted w w') \<longrightarrow> b = None)
    \<and> (\<forall>a h m. EvCall a h m \<in> set (emitted w w') \<longrightarrow> m = None)"
proof -
  from request_unlimited_aux [OF req] obtain evs where
    tr: "trace w' = trace w @ evs" and u: "unlimited evs" by blast
  from tr have E: "emitted w w' = evs" by (rule emitted_append)
  from u show ?thesis unfolding E unlimited_def by blast
qed

text \<open>
  The theorem at a run whose refresh takes a million seconds: five guards, each
  unlimited, no timeout, and the 200 of the second attempt returned.
\<close>

theorem request_unset_budget_never_times_out_witness:
  "EvGuardTimeout \<notin> set (obs_events (observe
      (run (scripted 1 1 1000000 None) [Inr 401, Inr 200] [401] 2 None None None)))
   \<and> guard_budgets (obs_events (observe
      (run (scripted 1 1 1000000 None) [Inr 401, Inr 200] [401] 2 None None None)))
       = [None, None, None, None, None]
   \<and> obs_clock (observe
      (run (scripted 1 1 1000000 None) [Inr 401, Inr 200] [401] 2 None None None)) = 1000004
   \<and> obs_result (observe
      (run (scripted 1 1 1000000 None) [Inr 401, Inr 200] [401] 2 None None None))
       = Inr \<lparr>status = 200, headers = [], content = []\<rparr>"
proof -
  let ?R = "run (scripted 1 1 1000000 None) [Inr 401, Inr 200] [401] 2 None None None"
  obtain self hdrs w res w' where r: "?R = (self, hdrs, w, res, w')"
    by (cases ?R)
  from request_unset_budget_never_times_out [OF run_request(1) [OF r]]
  have "EvGuardTimeout \<notin> set (emitted w w')" by blast
  then have "EvGuardTimeout \<notin> set (obs_events (observe ?R))"
    by (simp add: run_request(2) [OF r])
  then show ?thesis by (simp add: run_slow_refresh guard_budgets_def)
qed

section \<open>A refresh that raises\<close>

text \<open>
  Claim C7. If \<^verbatim>\<open>credentials.refresh\<close> raises \<open>x\<close> in a call of \<^verbatim>\<open>request\<close>, at
  whatever depth of the recursion, the whole call fails with \<open>x\<close> itself, and that
  refresh is the last thing the call does: no send, no refresh, no recursive call
  and no timeout of a guard follows it.
\<close>

theorem request_refresh_failure_ends_call:
  assumes req: "request C self method url data hdrs mat timeout kw attempt w = (res, w')"
    and raised: "EvRefresh a (Some x) \<in> set (emitted w w')"
  shows "(\<exists>pre. emitted w w' = pre @ [EvRefresh a (Some x)]) \<and> res = Inl x"
proof -
  from request_refresh_failure_aux [OF req] obtain evs where
    tr: "trace w' = trace w @ evs" and f: "refresh_failure_ends evs res" by blast
  from tr have E: "emitted w w' = evs" by (rule emitted_append)
  from raised have "EvRefresh a (Some x) \<in> set evs" by (simp add: E)
  with f show ?thesis unfolding E refresh_failure_ends_def by blast
qed

text \<open>
  The theorem at a run with a budget of 5 seconds whose refresh raises after 10: one
  send, one refresh, and the call fails with the refresh's exception, the budget
  being overrun or not.
\<close>

theorem request_refresh_failure_ends_call_witness:
  "obs_result (observe (run (scripted 1 1 10 (Some (OtherError ''RefreshError''))) [Inr 401]
      [401] 2 None None (Some 5))) = Inl (OtherError ''RefreshError'')
   \<and> count_sends (obs_events (observe (run (scripted 1 1 10 (Some (OtherError ''RefreshError'')))
      [Inr 401] [401] 2 None None (Some 5)))) = 1
   \<and> count_refreshes (obs_events (observe (run (scripted 1 1 10
      (Some (OtherError ''RefreshError''))) [Inr 401] [401] 2 None None (Some 5)))) = 1
   \<and> obs_clock (observe (run (scripted 1 1 10 (Some (OtherError ''RefreshError''))) [Inr 401]
      [401] 2 None None (Some 5))) = 12"
proof -
  let ?R = "run (scripted 1 1 10 (Some (OtherError ''RefreshError''))) [Inr 401] [401] 2
      None None (Some 5)"
  let ?ev = "EvRefresh (Partial (Invoker (Request 1)) 180) (Some (OtherError ''RefreshError''))"
  obtain self hdrs w res w' where r: "?R = (self, hdrs, w, res, w')"
    by (cases ?R)
  have "?ev \<in> set (obs_events (observe ?R))"
    by (simp add: run_refresh_raises_late)
  then have m: "?ev \<in> set (emitted w w')"
    by (simp add: run_request(2) [OF r])
  from request_refresh_failure_ends_call [OF run_request(1) [OF r] m]
  have "res = Inl (OtherError ''RefreshError'')" by auto
  then have "obs_result (observe ?R) = Inl (OtherError ''RefreshError'')"
    by (simp add: run_request(3) [OF r])
  then show ?thesis by (simp add: run_refresh_raises_late count_sends_def count_refreshes_def)
qed

end
